theory Spec2Isabelle
  imports Complex_Main "HOL-Library.Word"
begin

section \<open>The posts route of The-Educative: \<^verbatim>\<open>src/app/api/posts/route.tsx\<close>\<close>

text \<open>
  The route exports four handlers, \<^verbatim>\<open>GET\<close>, \<^verbatim>\<open>POST\<close>, \<^verbatim>\<open>PUT\<close> and \<^verbatim>\<open>DELETE\<close>.
  Each is embedded as a function from the request and the state of the collaborators
  (the document store and the asset store) to a response and the state afterwards.
  What the handlers obtain from outside (the session, a failing store call, the value of
  \<^verbatim>\<open>Math.random()\<close>, the asset store's answers) is read from an environment record.
\<close>

subsection \<open>JavaScript strings\<close>

text \<open>
  A JavaScript string is a sequence of UTF-16 code units. \<open>js\<close> writes an ASCII literal.
\<close>

type_synonym jsstring = "16 word list"

definition js :: "string \<Rightarrow> jsstring" where
  "js s = map (\<lambda>c. of_nat (of_char c)) s"

text \<open>
  \<^verbatim>\<open>String.prototype.trim\<close> and \<^verbatim>\<open>parseInt\<close> strip the code units of WhiteSpace and
  LineTerminator: TAB, LF, VT, FF, CR, SP, NBSP, U+1680, U+2000 to U+200A, LS, PS,
  U+202F, U+205F, U+3000 and the byte order mark.
\<close>

definition is_ws :: "16 word \<Rightarrow> bool" where
  "is_ws c \<longleftrightarrow>
     c = 0x9 \<or> c = 0xA \<or> c = 0xB \<or> c = 0xC \<or> c = 0xD \<or> c = 0x20 \<or> c = 0xA0 \<or>
     c = 0x1680 \<or> (0x2000 \<le> c \<and> c \<le> 0x200A) \<or> c = 0x2028 \<or> c = 0x2029 \<or>
     c = 0x202F \<or> c = 0x205F \<or> c = 0x3000 \<or> c = 0xFEFF"

definition trim :: "jsstring \<Rightarrow> jsstring" where
  "trim s = rev (dropWhile is_ws (rev (dropWhile is_ws s)))"

text \<open>\<^verbatim>\<open>xs.join(sep)\<close>: the elements with the separator between neighbours.\<close>

fun join :: "jsstring \<Rightarrow> jsstring list \<Rightarrow> jsstring" where
  "join sep [] = []"
| "join sep [x] = x"
| "join sep (x # y # ys) = x @ sep @ join sep (y # ys)"

text \<open>
  \<^verbatim>\<open>s.split(c)\<close> for a separator of one code unit: the pieces between the occurrences
  of \<open>c\<close>; the empty string gives one empty piece. The result is never empty, so the
  first branch of the \<open>case\<close> is not reached.
\<close>

fun split :: "16 word \<Rightarrow> jsstring \<Rightarrow> jsstring list" where
  "split c [] = [[]]"
| "split c (x # xs) =
     (if x = c then [] # split c xs
      else (case split c xs of [] \<Rightarrow> [[x]] | p # ps \<Rightarrow> (x # p) # ps))"

definition comma :: "16 word" where
  "comma = 0x2C"

definition slash :: "16 word" where
  "slash = 0x2F"

subsection \<open>Numbers read from and written to strings\<close>

definition is_digit :: "16 word \<Rightarrow> bool" where
  "is_digit c \<longleftrightarrow> 0x30 \<le> c \<and> c \<le> 0x39"

definition digit_val :: "16 word \<Rightarrow> int" where
  "digit_val c = uint c - 48"

definition digits_val :: "jsstring \<Rightarrow> int" where
  "digits_val ds = foldl (\<lambda>acc d. 10 * acc + digit_val d) 0 ds"

text \<open>
  The mathematical integer that \<^verbatim>\<open>parseInt(s, 10)\<close> reads: leading white space is skipped,
  one sign is read, then the longest run of decimal digits; \<open>None\<close> when there is no
  digit.
\<close>

definition integer_of :: "jsstring \<Rightarrow> int option" where
  "integer_of s =
     (let t = dropWhile is_ws s;
          neg = (case t of [] \<Rightarrow> False | c # _ \<Rightarrow> c = 0x2D);
          u = (case t of [] \<Rightarrow> [] | c # r \<Rightarrow> if c = 0x2B \<or> c = 0x2D then r else t);
          ds = takeWhile is_digit u
      in if ds = [] then None
         else Some (if neg then - digits_val ds else digits_val ds))"

subsection \<open>Binary64\<close>

text \<open>
  A JavaScript number is a binary64 value: every result is the exact result rounded to
  the nearest value with a significand of 53 bits, to the one with the even significand
  on a tie. The roundings the handlers need are those of a ratio \<open>a / b\<close> of natural
  numbers. \<open>bits n\<close> is the length of \<open>n\<close> in binary and \<open>expo a b\<close> the exponent of
  \<open>a / b\<close>, the \<open>e\<close> with \<open>2 ^ e \<le> a / b < 2 ^ (e + 1)\<close>, for positive \<open>a\<close> and \<open>b\<close>.
\<close>

fun bits :: "nat \<Rightarrow> nat" where
  "bits n = (if n = 0 then 0 else Suc (bits (n div 2)))"

declare bits.simps [simp del]

definition expo :: "nat \<Rightarrow> nat \<Rightarrow> int" where
  "expo a b =
     (let d = int (bits a) - int (bits b)
      in if b * 2 ^ nat d \<le> a * 2 ^ nat (- d) then d else d - 1)"

text \<open>The integer nearest to \<open>num / den\<close>, the even one on a tie.\<close>

definition round_even :: "nat \<Rightarrow> nat \<Rightarrow> nat" where
  "round_even num den =
     (let q = num div den; r = num mod den
      in if den < 2 * r \<or> (den = 2 * r \<and> odd q) then q + 1 else q)"

text \<open>
  The binary64 value nearest to \<open>a / b\<close>, as a pair \<open>(n, t)\<close> that stands for \<open>n * 2 ^ t\<close>:
  the spacing of the values around \<open>a / b\<close> is \<open>2 ^ t\<close> with \<open>t\<close> the exponent less 52, and
  \<open>- 1074\<close> for the subnormal values. \<open>None\<close> is Infinity, the result from \<open>2 ^ 1024\<close> on.
\<close>

definition round_ratio :: "nat \<Rightarrow> nat \<Rightarrow> (nat \<times> int) option" where
  "round_ratio a b =
     (if a = 0 then Some (0, 0)
      else
        (let t = max (expo a b - 52) (- 1074);
             n = round_even (a * 2 ^ nat (- t)) (b * 2 ^ nat t)
         in if 0 \<le> t \<and> 2 ^ 1024 \<le> n * 2 ^ nat t then None else Some (n, t)))"

fun dyadic :: "nat \<times> int \<Rightarrow> real" where
  "dyadic (n, t) = (if 0 \<le> t then real n * 2 ^ nat t else real n / 2 ^ nat (- t))"

fun floor_dyadic :: "nat \<times> int \<Rightarrow> int" where
  "floor_dyadic (n, t) = (if 0 \<le> t then int n * 2 ^ nat t else int n div 2 ^ nat (- t))"

fun ceil_dyadic :: "nat \<times> int \<Rightarrow> int" where
  "ceil_dyadic (n, t) = (if 0 \<le> t then int n * 2 ^ nat t else - (- int n div 2 ^ nat (- t)))"

text \<open>
  The numbers that \<^verbatim>\<open>parseInt\<close>, \<^verbatim>\<open>-\<close> and \<^verbatim>\<open>*\<close> give in \<^verbatim>\<open>GET\<close>: an integer that is a binary64
  value, an infinity or NaN. The two zeros are not told apart. \<open>round_int m\<close> is the
  number nearest to the integer \<open>m\<close>.
\<close>

datatype number = Fin int | PosInf | NegInf | NaN

definition round_int :: "int \<Rightarrow> number" where
  "round_int m =
     (case round_ratio (nat \<bar>m\<bar>) 1 of
        None \<Rightarrow> if m < 0 then NegInf else PosInf
      | Some x \<Rightarrow> Fin (if m < 0 then - floor_dyadic x else floor_dyadic x))"

text \<open>
  \<^verbatim>\<open>parseInt(s, 10)\<close>: the number nearest to the integer read, NaN when there is no digit.
  (ECMAScript lets an engine replace the digits after the twentieth by zeros before it
  rounds; the integer is rounded here as it is written.)
\<close>

definition parseInt :: "jsstring \<Rightarrow> number" where
  "parseInt s = (case integer_of s of None \<Rightarrow> NaN | Some m \<Rightarrow> round_int m)"

text \<open>\<^verbatim>\<open>x - y\<close> and \<^verbatim>\<open>x * y\<close>: the exact difference and product, rounded.\<close>

fun js_minus :: "number \<Rightarrow> number \<Rightarrow> number" where
  "js_minus (Fin a) (Fin b) = round_int (a - b)"
| "js_minus NaN y = NaN"
| "js_minus x NaN = NaN"
| "js_minus PosInf PosInf = NaN"
| "js_minus NegInf NegInf = NaN"
| "js_minus PosInf y = PosInf"
| "js_minus NegInf y = NegInf"
| "js_minus x PosInf = NegInf"
| "js_minus x NegInf = PosInf"

fun js_times :: "number \<Rightarrow> number \<Rightarrow> number" where
  "js_times (Fin a) (Fin b) = round_int (a * b)"
| "js_times NaN y = NaN"
| "js_times x NaN = NaN"
| "js_times (Fin a) PosInf = (if a = 0 then NaN else if 0 < a then PosInf else NegInf)"
| "js_times (Fin a) NegInf = (if a = 0 then NaN else if 0 < a then NegInf else PosInf)"
| "js_times PosInf (Fin b) = (if b = 0 then NaN else if 0 < b then PosInf else NegInf)"
| "js_times NegInf (Fin b) = (if b = 0 then NaN else if 0 < b then NegInf else PosInf)"
| "js_times PosInf PosInf = PosInf"
| "js_times PosInf NegInf = NegInf"
| "js_times NegInf PosInf = NegInf"
| "js_times NegInf NegInf = PosInf"

text \<open>
  \<^verbatim>\<open>Math.ceil(a / b)\<close> for integers \<open>a \<ge> 0\<close> and \<open>b \<ge> 1\<close>: the quotient is rounded, then its
  ceiling is taken. \<open>total_pages n l\<close> is \<^verbatim>\<open>Math.ceil(totalPosts / limit)\<close> for a count
  of \<open>n\<close> documents and a limit \<open>l \<ge> 1\<close>.
\<close>

definition ceil_quotient :: "int \<Rightarrow> int \<Rightarrow> number" where
  "ceil_quotient a b =
     (case round_ratio (nat a) (nat b) of None \<Rightarrow> PosInf | Some x \<Rightarrow> Fin (ceil_dyadic x))"

definition total_pages :: "nat \<Rightarrow> int \<Rightarrow> number" where
  "total_pages n l = (case round_int (int n) of Fin a \<Rightarrow> ceil_quotient a l | x \<Rightarrow> x)"

text \<open>\<^verbatim>\<open>v || d\<close> on the result of \<^verbatim>\<open>searchParams.get\<close>: null and the empty string are falsy.\<close>

definition or_default :: "jsstring option \<Rightarrow> jsstring \<Rightarrow> jsstring" where
  "or_default v d = (case v of None \<Rightarrow> d | Some s \<Rightarrow> if s = [] then d else s)"

text \<open>The decimal digits of a natural number, most significant first.\<close>

definition digit_of :: "nat \<Rightarrow> 16 word" where
  "digit_of d = of_nat (48 + d)"

fun decimal :: "nat \<Rightarrow> jsstring" where
  "decimal n = (if n < 10 then [digit_of n] else decimal (n div 10) @ [digit_of (n mod 10)])"

declare decimal.simps [simp del]

text \<open>
  \<^verbatim>\<open>x.toFixed(0)\<close> for a binary64 value \<open>x\<close> with \<open>\<bar>x\<bar> < 10 ^ 21\<close>: the integer nearest to
  \<open>\<bar>x\<bar>\<close>, the larger one on a tie, in decimal, after a minus sign when \<open>x < 0\<close>.
\<close>

definition toFixed0 :: "real \<Rightarrow> jsstring" where
  "toFixed0 x =
     (if x < 0 then 0x2D # decimal (nat \<lfloor>- x + 1 / 2\<rfloor>) else decimal (nat \<lfloor>x + 1 / 2\<rfloor>))"

subsection \<open>Requests, documents and collaborators\<close>

text \<open>
  A form entry (\<^verbatim>\<open>FormDataEntryValue\<close>) is a string or a \<^verbatim>\<open>File\<close>; \<^verbatim>\<open>body.get\<close> gives
  null, here \<open>None\<close>, for an absent field.
\<close>

record jsfile =
  file_type :: jsstring
  file_data :: "8 word list"

datatype entry = EStr jsstring | EFile jsfile

text \<open>JavaScript truthiness of \<^verbatim>\<open>body.get(..)\<close>: null and \<^verbatim>\<open>""\<close> are falsy, a File is truthy.\<close>

fun truthy :: "entry option \<Rightarrow> bool" where
  "truthy None = False"
| "truthy (Some (EStr s)) = (s \<noteq> [])"
| "truthy (Some (EFile f)) = True"

text \<open>What \<^verbatim>\<open>join\<close> and a template literal make of an entry.\<close>

fun to_string :: "entry \<Rightarrow> jsstring" where
  "to_string (EStr s) = s"
| "to_string (EFile f) = js ''[object File]''"

record form =
  f_id :: "entry option"
  f_title :: "entry option"
  f_slug :: "entry option"
  f_content :: "entry option"
  f_excerpt :: "entry option"
  f_author :: "entry option"
  f_category :: "entry option"
  f_subcategory :: "entry option"
  f_tags :: "entry list"
  f_metaTitle :: "entry option"
  f_metaDescription :: "entry option"
  f_metaKeywords :: "entry option"
  f_featuredImage :: "entry option"
  f_imageCredit :: "entry option"
  f_status :: "entry option"

text \<open>
  Modelled from the spec: the Post schema (\<^verbatim>\<open>@/models/Post\<close>) is not part of the sources.
  Following section 3 of the specification a Post has an identifier, the fields the
  handlers assign, a list of tag identifiers, a featured-image URL and two dates. A field
  holds the value the handler assigned to it, without a cast; a date is a number of
  milliseconds since the epoch.
\<close>

record post =
  post_id :: jsstring
  title :: "entry option"
  slug :: "entry option"
  content :: "entry option"
  excerpt :: "entry option"
  author :: "entry option"
  category :: "entry option"
  subcategory :: "entry option"
  tags :: "jsstring list"
  metaTitle :: "entry option"
  metaDescription :: "entry option"
  metaKeywords :: "entry option"
  featuredImage :: jsstring
  imageCredit :: "entry option"
  status :: "entry option"
  publish_date :: int
  updated_date :: int

text \<open>
  Modelled from the spec: categories, subcategories and tags are documents with an
  identifier and a name (section 3); their schemas are not part of the sources.
\<close>

record taxon =
  taxon_id :: jsstring
  taxon_name :: jsstring

text \<open>
  The state: the collections of the document store, in insertion order, and the objects
  of the asset store. Of a user only the identifier is read.
\<close>

record store =
  posts :: "post list"
  users :: "jsstring list"
  categories :: "taxon list"
  subcategories :: "taxon list"
  tag_docs :: "taxon list"
  assets :: "(jsstring \<times> jsfile) list"

text \<open>
  The awaited calls that can throw inside the handlers' \<^verbatim>\<open>try\<close> blocks, and the two kinds
  of exception the \<^verbatim>\<open>catch\<close> blocks tell apart (\<^verbatim>\<open>e instanceof MongooseError\<close> or not).
  A cast or validation failure of the store is such an exception.
\<close>

datatype store_op =
  Conn | UserFindOne | PostFindOne | PostSave | PostFindOneAndDelete | PostAggregate
  | PostCountDocuments

datatype fault = MongooseError | OtherError

text \<open>
  The environment of one request: the session's user identifier (\<open>None\<close>: no session),
  the store calls that throw, whether an upload under a key succeeds and the URL
  \<^verbatim>\<open>getDownloadURL\<close> then returns (\<open>None\<close>: it throws), the value of \<^verbatim>\<open>Math.random()\<close>
  (the pair \<open>(m, j)\<close> is the binary64 value \<open>m / 2 ^ j\<close>), the
  document \<^verbatim>\<open>new Post\<close> starts from (the schema's identifier and defaults), and the
  store's \<^verbatim>\<open>$dateToString\<close> for the format \<^verbatim>\<open>%d-%m-%Y\<close>.
\<close>

record env =
  session :: "jsstring option"
  fault_of :: "store_op \<Rightarrow> fault option"
  upload_ok :: "jsstring \<Rightarrow> jsfile \<Rightarrow> bool"
  download_url :: "jsstring \<Rightarrow> jsstring option"
  math_random :: "nat \<times> nat"
  blank :: post
  date_to_string :: "int \<Rightarrow> jsstring"

text \<open>The responses of the four handlers, with their HTTP status.\<close>

datatype response =
  ValidationFailed | Unauthorized | UserNotFound | PostNotFound | InvalidPost
  | Created | Updated | Deleted | MongooseFailure | GeneralFailure

fun status_code :: "response \<Rightarrow> nat" where
  "status_code ValidationFailed = 400"
| "status_code Unauthorized = 401"
| "status_code UserNotFound = 404"
| "status_code PostNotFound = 404"
| "status_code InvalidPost = 400"
| "status_code Created = 201"
| "status_code Updated = 200"
| "status_code Deleted = 200"
| "status_code MongooseFailure = 400"
| "status_code GeneralFailure = 500"

text \<open>The \<^verbatim>\<open>catch\<close> block of \<^verbatim>\<open>POST\<close> and \<^verbatim>\<open>PUT\<close>.\<close>

fun caught :: "fault \<Rightarrow> response" where
  "caught MongooseError = MongooseFailure"
| "caught OtherError = GeneralFailure"

subsection \<open>The write handlers\<close>

text \<open>
  Lines 138-139 and 243-244:
  \<^verbatim>\<open>tags.join(",")\<close>, then \<^verbatim>\<open>tagsString.split(",").map((tag) => tag.trim())\<close>.
\<close>

definition tagsString :: "entry list \<Rightarrow> jsstring" where
  "tagsString ts = join [comma] (map to_string ts)"

definition filteredTags :: "entry list \<Rightarrow> jsstring list" where
  "filteredTags ts = map trim (split comma (tagsString ts))"

text \<open>Lines 143 and 248: the required fields.\<close>

definition required_present :: "form \<Rightarrow> bool" where
  "required_present body \<longleftrightarrow>
     truthy (f_title body) \<and> truthy (f_content body) \<and> truthy (f_author body) \<and>
     truthy (f_category body) \<and> truthy (f_subcategory body)"

text \<open>\<^verbatim>\<open>file.type.split("/").pop()\<close>: the last piece (\<open>split\<close> never gives the empty list).\<close>

definition ext_of :: "jsfile \<Rightarrow> jsstring" where
  "ext_of f = last (split slash (file_type f))"

text \<open>
  Line 193: \<^verbatim>\<open>Math.random() * 100000000000\<close>, the exact product rounded to binary64, and
  the object key of a created post's image, made from it with \<^verbatim>\<open>toFixed(0)\<close>.
\<close>

definition random_times :: "nat \<times> nat \<Rightarrow> (nat \<times> int) option" where
  "random_times r = round_ratio (fst r * 100000000000) (2 ^ snd r)"

definition create_key :: "nat \<times> nat \<Rightarrow> jsfile \<Rightarrow> jsstring" where
  "create_key r f =
     js ''the-educative/blog/post-'' @
     (case random_times r of None \<Rightarrow> js ''Infinity'' | Some x \<Rightarrow> toFixed0 (dyadic x)) @
     js ''.'' @ ext_of f"

text \<open>Line 302: the object key of an updated post's image.\<close>

definition update_key :: "entry \<Rightarrow> jsfile \<Rightarrow> jsstring" where
  "update_key i f = js ''the-educative/blog/post-'' @ to_string i @ js ''.'' @ ext_of f"

text \<open>
  \<^verbatim>\<open>uploadBytesResumable\<close> followed by \<^verbatim>\<open>getDownloadURL\<close>: \<open>None\<close> when either throws. A
  finished upload leaves the object in the asset store, replacing one under the same key.
\<close>

definition put_asset :: "jsstring \<Rightarrow> jsfile \<Rightarrow> store \<Rightarrow> store" where
  "put_asset k f st = st\<lparr>assets := (k, f) # filter (\<lambda>a. fst a \<noteq> k) (assets st)\<rparr>"

definition upload :: "env \<Rightarrow> jsstring \<Rightarrow> jsfile \<Rightarrow> store \<Rightarrow> jsstring option \<times> store" where
  "upload e k f st =
     (if \<not> upload_ok e k f then (None, st)
      else (download_url e k, put_asset k f st))"

text \<open>Lines 172-187: \<^verbatim>\<open>new Post({..})\<close>. The form's \<^verbatim>\<open>_id\<close> is read and not used.\<close>

definition newPost :: "env \<Rightarrow> form \<Rightarrow> post" where
  "newPost e body = (blank e)\<lparr>
     title := f_title body, slug := f_slug body, content := f_content body,
     excerpt := f_excerpt body, author := f_author body, category := f_category body,
     subcategory := f_subcategory body, tags := filteredTags (f_tags body),
     metaTitle := f_metaTitle body, metaDescription := f_metaDescription body,
     metaKeywords := f_metaKeywords body, featuredImage := [],
     imageCredit := f_imageCredit body, status := f_status body\<rparr>"

text \<open>\<^verbatim>\<open>newPost.save()\<close> of a new document: it throws, or the document is inserted.\<close>

definition save_new :: "env \<Rightarrow> post \<Rightarrow> store \<Rightarrow> response \<times> store" where
  "save_new e p st =
     (case fault_of e PostSave of
        Some x \<Rightarrow> (caught x, st)
      | None \<Rightarrow> (Created, st\<lparr>posts := posts st @ [p]\<rparr>))"

definition user_exists :: "store \<Rightarrow> jsstring \<Rightarrow> bool" where
  "user_exists st u \<longleftrightarrow> u \<in> set (users st)"

definition POST :: "env \<Rightarrow> form \<Rightarrow> store \<Rightarrow> response \<times> store" where
  "POST e body st =
     (if \<not> required_present body then (ValidationFailed, st)
      else
       (case session e of
        None \<Rightarrow> (Unauthorized, st)
      | Some u \<Rightarrow>
         (case fault_of e Conn of Some x \<Rightarrow> (caught x, st) | None \<Rightarrow>
         (case fault_of e UserFindOne of Some x \<Rightarrow> (caught x, st) | None \<Rightarrow>
          if \<not> user_exists st u then (UserNotFound, st)
          else
            (case f_featuredImage body of
               Some (EFile f) \<Rightarrow>
                 (case upload e (create_key (math_random e) f) f st of
                    (None, st') \<Rightarrow> (GeneralFailure, st')
                  | (Some url, st') \<Rightarrow>
                      save_new e ((newPost e body)\<lparr>featuredImage := url\<rparr>) st')
             | _ \<Rightarrow> save_new e (newPost e body) st)))))"

text \<open>
  \<^verbatim>\<open>Post.findOne({ _id: id })\<close>: the first post with that identifier. Only a string can be
  equal to a stored identifier.
\<close>

fun id_is :: "entry \<Rightarrow> post \<Rightarrow> bool" where
  "id_is (EStr s) p = (post_id p = s)"
| "id_is (EFile f) p = False"

definition findOne :: "store \<Rightarrow> entry \<Rightarrow> post option" where
  "findOne st i = find (id_is i) (posts st)"

text \<open>Lines 285-296: the assignments to the document found.\<close>

definition assign :: "form \<Rightarrow> post \<Rightarrow> post" where
  "assign body p = p\<lparr>
     title := f_title body, content := f_content body, excerpt := f_excerpt body,
     author := f_author body, category := f_category body,
     subcategory := f_subcategory body, tags := filteredTags (f_tags body),
     metaTitle := f_metaTitle body, metaDescription := f_metaDescription body,
     metaKeywords := f_metaKeywords body, imageCredit := f_imageCredit body,
     status := f_status body\<rparr>"

text \<open>
  \<^verbatim>\<open>post.save()\<close> of a document that was found: the stored document with its identifier
  is replaced.
\<close>

fun replace_first :: "('a \<Rightarrow> bool) \<Rightarrow> 'a \<Rightarrow> 'a list \<Rightarrow> 'a list" where
  "replace_first P y [] = []"
| "replace_first P y (x # xs) = (if P x then y # xs else x # replace_first P y xs)"

definition save_found :: "env \<Rightarrow> entry \<Rightarrow> post \<Rightarrow> store \<Rightarrow> response \<times> store" where
  "save_found e i p st =
     (case fault_of e PostSave of
        Some x \<Rightarrow> (caught x, st)
      | None \<Rightarrow> (Updated, st\<lparr>posts := replace_first (id_is i) p (posts st)\<rparr>))"

definition PUT :: "env \<Rightarrow> form \<Rightarrow> store \<Rightarrow> response \<times> store" where
  "PUT e body st =
     (if \<not> required_present body then (ValidationFailed, st)
      else
       (case session e of
        None \<Rightarrow> (Unauthorized, st)
      | Some u \<Rightarrow>
         (case fault_of e Conn of Some x \<Rightarrow> (caught x, st) | None \<Rightarrow>
         (case fault_of e UserFindOne of Some x \<Rightarrow> (caught x, st) | None \<Rightarrow>
          if \<not> user_exists st u then (UserNotFound, st)
          else if \<not> truthy (f_id body) then (InvalidPost, st)
          else
            (case f_id body of None \<Rightarrow> (InvalidPost, st) | Some i \<Rightarrow>
            (case fault_of e PostFindOne of Some x \<Rightarrow> (caught x, st) | None \<Rightarrow>
            (case findOne st i of
               None \<Rightarrow> (PostNotFound, st)
             | Some p \<Rightarrow>
                (case f_featuredImage body of
                   Some (EFile f) \<Rightarrow>
                     (case upload e (update_key i f) f st of
                        (None, st') \<Rightarrow> (GeneralFailure, st')
                      | (Some url, st') \<Rightarrow>
                          save_found e i ((assign body p)\<lparr>featuredImage := url\<rparr>) st')
                 | _ \<Rightarrow> save_found e i (assign body p) st))))))))"

text \<open>
  \<^verbatim>\<open>DELETE\<close> reads \<^verbatim>\<open>id\<close> from a JSON body, taken here as a string or absent. Its \<^verbatim>\<open>catch\<close>
  answers 500 for every exception. \<^verbatim>\<open>findOneAndDelete\<close> removes the first post with the
  identifier.
\<close>

fun remove_first :: "('a \<Rightarrow> bool) \<Rightarrow> 'a list \<Rightarrow> 'a list" where
  "remove_first P [] = []"
| "remove_first P (x # xs) = (if P x then xs else x # remove_first P xs)"

definition DELETE :: "env \<Rightarrow> jsstring option \<Rightarrow> store \<Rightarrow> response \<times> store" where
  "DELETE e i st =
     (case i of None \<Rightarrow> (ValidationFailed, st) | Some s \<Rightarrow>
      if s = [] then (ValidationFailed, st)
      else
       (case session e of
        None \<Rightarrow> (Unauthorized, st)
      | Some u \<Rightarrow>
         (case fault_of e Conn of Some x \<Rightarrow> (GeneralFailure, st) | None \<Rightarrow>
         (case fault_of e UserFindOne of Some x \<Rightarrow> (GeneralFailure, st) | None \<Rightarrow>
          if \<not> user_exists st u then (UserNotFound, st)
          else
            (case fault_of e PostFindOneAndDelete of Some x \<Rightarrow> (GeneralFailure, st) | None \<Rightarrow>
            (case find (id_is (EStr s)) (posts st) of
               None \<Rightarrow> (PostNotFound, st)
             | Some p \<Rightarrow>
                 (Deleted, st\<lparr>posts := remove_first (id_is (EStr s)) (posts st)\<rparr>)))))))"

subsection \<open>The read handler\<close>

text \<open>The document each listed post is projected to (lines 70-105, and \<^verbatim>\<open>_id\<close>).\<close>

record listed =
  l_id :: jsstring
  l_title :: "entry option"
  l_slug :: "entry option"
  l_content :: "entry option"
  l_excerpt :: "entry option"
  l_author :: "entry option"
  l_category :: "jsstring option"
  l_subcategory :: "jsstring option"
  l_tags :: "jsstring list"
  l_publish_date :: jsstring
  l_categoryName :: "jsstring option"
  l_subcategoryName :: "jsstring option"
  l_tagNames :: "jsstring list"
  l_metaTitle :: "entry option"
  l_metaDescription :: "entry option"
  l_metaKeywords :: "entry option"
  l_featuredImage :: jsstring
  l_imageCredit :: "entry option"
  l_status :: "entry option"
  l_updated_date :: int

definition published :: "post \<Rightarrow> bool" where
  "published p \<longleftrightarrow> status p = Some (EStr (js ''published''))"

text \<open>\<^verbatim>\<open>$match\<close> (lines 25-29) and \<^verbatim>\<open>$sort: { publish_date: -1 }\<close> (lines 30-32).\<close>

definition match_stage :: "post list \<Rightarrow> post list" where
  "match_stage ps = filter published ps"

definition sort_stage :: "post list \<Rightarrow> post list" where
  "sort_stage ps = sort_key (\<lambda>p. - publish_date p) ps"

text \<open>
  \<^verbatim>\<open>$lookup\<close>: each document with the list of the documents of the other collection that
  it refers to. \<^verbatim>\<open>$unwind\<close> with \<^verbatim>\<open>preserveNullAndEmptyArrays\<close>: one document for each
  element of that list, and one without the field when the list is empty.
\<close>

definition lookup_stage :: "('d \<Rightarrow> 'c \<Rightarrow> bool) \<Rightarrow> 'c list \<Rightarrow> 'd list \<Rightarrow> ('d \<times> 'c list) list" where
  "lookup_stage refers coll ds = map (\<lambda>d. (d, filter (refers d) coll)) ds"

fun unwind_one :: "'d \<times> 'c list \<Rightarrow> ('d \<times> 'c option) list" where
  "unwind_one (d, []) = [(d, None)]"
| "unwind_one (d, c # cs) = map (\<lambda>x. (d, Some x)) (c # cs)"

definition unwind_stage :: "('d \<times> 'c list) list \<Rightarrow> ('d \<times> 'c option) list" where
  "unwind_stage ds = concat (map unwind_one ds)"

definition refers_category :: "post \<Rightarrow> taxon \<Rightarrow> bool" where
  "refers_category p c \<longleftrightarrow> category p = Some (EStr (taxon_id c))"

definition refers_subcategory :: "post \<times> taxon option \<Rightarrow> taxon \<Rightarrow> bool" where
  "refers_subcategory d c \<longleftrightarrow> subcategory (fst d) = Some (EStr (taxon_id c))"

definition refers_tag :: "(post \<times> taxon option) \<times> taxon option \<Rightarrow> taxon \<Rightarrow> bool" where
  "refers_tag d t \<longleftrightarrow> taxon_id t \<in> set (tags (fst (fst d)))"

type_synonym joined = "((post \<times> taxon option) \<times> taxon option) \<times> taxon list"

text \<open>The post a joined document was made from.\<close>

definition source_post :: "joined \<Rightarrow> post" where
  "source_post d = fst (fst (fst d))"

text \<open>\<^verbatim>\<open>$project\<close> (lines 69-105); \<^verbatim>\<open>$ifNull\<close> gives null for the field of an absent document.\<close>

fun project_one :: "env \<Rightarrow> joined \<Rightarrow> listed" where
  "project_one e (((p, c), s), ts) = \<lparr>
     l_id = post_id p, l_title = title p, l_slug = slug p, l_content = content p,
     l_excerpt = excerpt p, l_author = author p,
     l_category = map_option taxon_id c, l_subcategory = map_option taxon_id s,
     l_tags = map taxon_id ts,
     l_publish_date = date_to_string e (publish_date p),
     l_categoryName = map_option taxon_name c, l_subcategoryName = map_option taxon_name s,
     l_tagNames = map taxon_name ts,
     l_metaTitle = metaTitle p, l_metaDescription = metaDescription p,
     l_metaKeywords = metaKeywords p, l_featuredImage = featuredImage p,
     l_imageCredit = imageCredit p, l_status = status p,
     l_updated_date = updated_date p\<rparr>"

text \<open>The stages before \<^verbatim>\<open>$project\<close>, in the order of lines 24-68.\<close>

definition joined_stage :: "store \<Rightarrow> joined list" where
  "joined_stage st =
     lookup_stage refers_tag (tag_docs st)
       (unwind_stage (lookup_stage refers_subcategory (subcategories st)
         (unwind_stage (lookup_stage refers_category (categories st)
           (sort_stage (match_stage (posts st)))))))"

text \<open>The pipeline with \<^verbatim>\<open>$skip\<close> and \<^verbatim>\<open>$limit\<close> (lines 106-107) at its end.\<close>

definition aggregate :: "env \<Rightarrow> store \<Rightarrow> nat \<Rightarrow> nat \<Rightarrow> listed list" where
  "aggregate e st skip limit = take limit (drop skip (map (project_one e) (joined_stage st)))"

text \<open>\<^verbatim>\<open>Post.countDocuments({ status: "published" })\<close>.\<close>

definition countDocuments :: "store \<Rightarrow> nat" where
  "countDocuments st = length (filter published (posts st))"

datatype get_response = Listing "listed list" number | ListFailure

text \<open>
  \<^verbatim>\<open>GET\<close> with the query parameters \<^verbatim>\<open>page\<close> and \<^verbatim>\<open>limit\<close> (\<open>None\<close>: absent). Every exception
  is answered with 500. The store takes \<^verbatim>\<open>$skip\<close> and \<^verbatim>\<open>$limit\<close> as 64-bit integers: it
  rejects a pipeline whose \<^verbatim>\<open>$skip\<close> or \<^verbatim>\<open>$limit\<close> is NaN, an infinity or \<open>2 ^ 63\<close> or more,
  whose \<^verbatim>\<open>$skip\<close> is negative or whose \<^verbatim>\<open>$limit\<close> is below 1, so \<^verbatim>\<open>aggregate\<close> throws for these.
\<close>

definition GET :: "env \<Rightarrow> jsstring option \<Rightarrow> jsstring option \<Rightarrow> store \<Rightarrow> get_response" where
  "GET e page_param limit_param st =
     (case fault_of e Conn of Some x \<Rightarrow> ListFailure | None \<Rightarrow>
     (let page = parseInt (or_default page_param (js ''1''));
          limit = parseInt (or_default limit_param (js ''6''));
          skip = js_times (js_minus page (Fin 1)) limit
      in
       (case (skip, limit) of
          (Fin s, Fin l) \<Rightarrow>
            if s < 0 \<or> 2 ^ 63 \<le> s \<or> l < 1 \<or> 2 ^ 63 \<le> l then ListFailure
            else
             (case fault_of e PostAggregate of Some x \<Rightarrow> ListFailure | None \<Rightarrow>
             (case fault_of e PostCountDocuments of Some x \<Rightarrow> ListFailure | None \<Rightarrow>
                Listing (aggregate e st (nat s) (nat l)) (total_pages (countDocuments st) l)))
        | _ \<Rightarrow> ListFailure)))"

subsection \<open>A small store and some requests\<close>

text \<open>
  Three posts, the second a draft, the third newer than the first and referring to a
  category and a subcategory that do not exist; one user; one document in each of the
  other collections.
\<close>

definition str :: "string \<Rightarrow> entry option" where
  "str s = Some (EStr (js s))"

definition ex_blank :: post where
  "ex_blank = \<lparr>post_id = js ''n'', title = None, slug = None, content = None, excerpt = None,
     author = None, category = None, subcategory = None, tags = [], metaTitle = None,
     metaDescription = None, metaKeywords = None, featuredImage = [], imageCredit = None,
     status = None, publish_date = 600, updated_date = 600\<rparr>"

definition ex_post_a :: post where
  "ex_post_a = ex_blank\<lparr>post_id := js ''a'', title := str ''First'', slug := str ''first'',
     content := str ''text'', excerpt := str ''old excerpt'', author := str ''ann'',
     category := str ''c1'',
     subcategory := str ''s1'', tags := [js ''t1''], featuredImage := js ''http://img/a'',
     status := str ''published'', publish_date := 300, updated_date := 300\<rparr>"

definition ex_post_b :: post where
  "ex_post_b = ex_blank\<lparr>post_id := js ''b'', title := str ''Second'', status := str ''draft'',
     publish_date := 400, updated_date := 400\<rparr>"

definition ex_post_c :: post where
  "ex_post_c = ex_blank\<lparr>post_id := js ''c'', title := str ''Third'', category := str ''zz'',
     subcategory := str ''yy'', status := str ''published'', publish_date := 500,
     updated_date := 500\<rparr>"

definition ex_store :: store where
  "ex_store = \<lparr>posts = [ex_post_a, ex_post_b, ex_post_c], users = [js ''u1''],
     categories = [\<lparr>taxon_id = js ''c1'', taxon_name = js ''News''\<rparr>],
     subcategories = [\<lparr>taxon_id = js ''s1'', taxon_name = js ''Local''\<rparr>],
     tag_docs = [\<lparr>taxon_id = js ''t1'', taxon_name = js ''hot''\<rparr>],
     assets = []\<rparr>"

text \<open>
  An environment in which nothing fails: the user \<open>u1\<close> is signed in, an upload under key
  \<open>k\<close> is served at \<open>cdn/k\<close>, and \<^verbatim>\<open>Math.random()\<close> gives \<open>1 / 2 ^ 5\<close>.
\<close>

definition ex_env :: env where
  "ex_env = \<lparr>session = Some (js ''u1''), fault_of = (\<lambda>x. None), upload_ok = (\<lambda>k f. True),
     download_url = (\<lambda>k. Some (js ''cdn/'' @ k)), math_random = (1, 5), blank = ex_blank,
     date_to_string = (\<lambda>d. js ''01-01-1970'')\<rparr>"

definition ex_png :: jsfile where
  "ex_png = \<lparr>file_type = js ''image/png'', file_data = [0x89, 0x50]\<rparr>"

text \<open>A form with the required fields, no tags, no image and the identifier of the first post.\<close>

definition ex_form :: form where
  "ex_form = \<lparr>f_id = str ''a'', f_title = str ''New title'', f_slug = str ''new-slug'',
     f_content = str ''body'', f_excerpt = None, f_author = str ''ann'',
     f_category = str ''c1'', f_subcategory = str ''s1'', f_tags = [],
     f_metaTitle = None, f_metaDescription = None, f_metaKeywords = None,
     f_featuredImage = None, f_imageCredit = None, f_status = str ''draft''\<rparr>"

text \<open>The same form with two tag values, one padded with blanks and one holding a comma.\<close>

definition ex_form_tags :: form where
  "ex_form_tags = ex_form\<lparr>f_tags := [EStr (js '' a ''), EStr (js ''b,c'')]\<rparr>"

text \<open>Variants: a form without the title, one without the identifier, one with an image.\<close>

definition ex_form_notitle :: form where
  "ex_form_notitle = ex_form\<lparr>f_title := None\<rparr>"

definition ex_form_noid :: form where
  "ex_form_noid = ex_form\<lparr>f_id := None\<rparr>"

definition ex_form_png :: form where
  "ex_form_png = ex_form\<lparr>f_featuredImage := Some (EFile ex_png)\<rparr>"

definition ex_form_gone :: form where
  "ex_form_gone = ex_form\<lparr>f_id := str ''q''\<rparr>"

text \<open>
  Variants of the environment: no session, a session of a user the store does not have,
  and an asset store that refuses every upload.
\<close>

definition ex_env_anon :: env where
  "ex_env_anon = ex_env\<lparr>session := None\<rparr>"

definition ex_env_ghost :: env where
  "ex_env_ghost = ex_env\<lparr>session := Some (js ''u9'')\<rparr>"

definition ex_env_noupload :: env where
  "ex_env_noupload = ex_env\<lparr>upload_ok := (\<lambda>k f. False)\<rparr>"



section \<open>Properties\<close>

subsection \<open>Joining, splitting and decimal digits\<close>

lemma split_not_Nil: "split c s \<noteq> []"
  by (induction s) (auto split: list.splits)

lemma split_no_sep: "c \<notin> set s \<Longrightarrow> split c s = [s]"
  by (induction s) auto

lemma split_append_sep: "split c (a @ c # b) = split c a @ split c b"
proof (induction a)
  case Nil
  show ?case by simp
next
  case (Cons x a)
  obtain p ps where "split c a = p # ps"
    using split_not_Nil [of c a] by (cases "split c a") auto
  with Cons show ?case by simp
qed

lemma split_join_Cons:
  "split c (join [c] (x # xs)) = split c x @ concat (map (split c) xs)"
proof (induction xs arbitrary: x)
  case Nil
  show ?case by simp
next
  case (Cons y ys)
  have "split c (join [c] (x # y # ys)) = split c x @ split c (join [c] (y # ys))"
    by (simp add: split_append_sep)
  then show ?case by (simp add: Cons.IH)
qed

lemma split_join: "xs \<noteq> [] \<Longrightarrow> split c (join [c] xs) = concat (map (split c) xs)"
  by (cases xs) (simp_all add: split_join_Cons del: join.simps)

lemma length_split: "length (split c s) = Suc (count_list s c)"
proof (induction s)
  case Nil
  show ?case by simp
next
  case (Cons x s)
  obtain p ps where "split c s = p # ps"
    using split_not_Nil [of c s] by (cases "split c s") auto
  with Cons show ?case by auto
qed

lemma filteredTags_Nil: "filteredTags [] = [[]]"
  by (simp add: filteredTags_def tagsString_def trim_def)

lemma filteredTags_concat:
  "ts \<noteq> [] \<Longrightarrow> filteredTags ts = concat (map (\<lambda>t. map trim (split comma (to_string t))) ts)"
  by (simp add: filteredTags_def tagsString_def split_join map_concat comp_def)

lemma decimal_length_le: "0 < k \<Longrightarrow> n < 10 ^ k \<Longrightarrow> length (decimal n) \<le> k"
proof (induction k arbitrary: n)
  case 0
  then show ?case by simp
next
  case (Suc k)
  show ?case
  proof (cases "n < 10")
    case True
    then show ?thesis by (simp add: decimal.simps)
  next
    case False
    then have k: "0 < k" using Suc.prems by (cases k) auto
    have "n div 10 < 10 ^ k" using Suc.prems by (simp add: less_mult_imp_div_less mult.commute)
    from Suc.IH [OF k this] False show ?thesis by (subst decimal.simps) simp
  qed
qed

lemma decimal_length_gt: "10 ^ k \<le> n \<Longrightarrow> k < length (decimal n)"
proof (induction k arbitrary: n)
  case 0
  then show ?case by (subst decimal.simps) simp
next
  case (Suc k)
  have a: "(10::nat) \<le> 10 * 10 ^ k" by simp
  have b: "10 * 10 ^ k \<le> n" using Suc.prems by simp
  from a b have "\<not> n < 10" by linarith
  moreover have "10 ^ k \<le> n div 10" using Suc.prems by (simp add: less_eq_div_iff_mult_less_eq mult.commute)
  ultimately show ?case using Suc.IH [of "n div 10"] by (subst decimal.simps) simp
qed

lemma decimal_length_ge1: "1 \<le> length (decimal n)"
  by (subst decimal.simps) simp


subsection \<open>What the write handlers store\<close>

lemma caught_not_success [simp]:
  "caught x \<noteq> Created" "caught x \<noteq> Updated" "caught x \<noteq> Deleted"
  "caught x \<noteq> ValidationFailed" "caught x \<noteq> Unauthorized" "caught x \<noteq> UserNotFound"
  "caught x \<noteq> PostNotFound" "caught x \<noteq> InvalidPost"
  by (cases x; simp)+

lemma find_replace_first:
  "P y \<Longrightarrow> find P xs = Some x \<Longrightarrow> find P (replace_first P y xs) = Some y"
  by (induction xs) auto

lemma POST_not_Created:
  "fst (POST e body st) \<noteq> Created \<Longrightarrow> posts (snd (POST e body st)) = posts st"
  by (auto simp: POST_def save_new_def upload_def put_asset_def
      split: if_splits option.splits entry.splits prod.splits)

lemma POST_Created:
  assumes "POST e body st = (Created, st')"
  shows "required_present body \<and> (\<exists>u. session e = Some u \<and> u \<in> set (users st)) \<and>
    (\<exists>img. posts st' = posts st @ [(newPost e body)\<lparr>featuredImage := img\<rparr>] \<and>
       (case f_featuredImage body of
          Some (EFile f) \<Rightarrow>
            download_url e (create_key (math_random e) f) = Some img \<and>
            (create_key (math_random e) f, f) \<in> set (assets st')
        | _ \<Rightarrow> img = [] \<and> assets st' = assets st))"
  using assms
  by (auto simp: POST_def save_new_def upload_def put_asset_def user_exists_def newPost_def
      split: if_splits option.splits entry.splits prod.splits)

lemma PUT_not_Updated:
  "fst (PUT e body st) \<noteq> Updated \<Longrightarrow> posts (snd (PUT e body st)) = posts st"
  by (auto simp: PUT_def save_found_def upload_def put_asset_def
      split: if_splits option.splits entry.splits prod.splits)

lemma id_is_assign [simp]:
  "id_is i ((assign body p)\<lparr>featuredImage := img\<rparr>) = id_is i p"
  "id_is i (assign body p) = id_is i p"
  by (cases i; simp add: assign_def)+

lemma assign_same_image [simp]:
  "(assign body p)\<lparr>featuredImage := featuredImage p\<rparr> = assign body p"
  by (simp add: assign_def)

lemma find_holds: "find P xs = Some x \<Longrightarrow> P x"
  by (induction xs) (auto split: if_splits)

lemma PUT_Updated_posts:
  assumes "PUT e body st = (Updated, st')"
  shows "required_present body \<and> (\<exists>u. session e = Some u \<and> u \<in> set (users st)) \<and>
    (\<exists>i p img. f_id body = Some i \<and> findOne st i = Some p \<and>
       posts st' = replace_first (id_is i) ((assign body p)\<lparr>featuredImage := img\<rparr>) (posts st) \<and>
       (case f_featuredImage body of
          Some (EFile f) \<Rightarrow>
            download_url e (update_key i f) = Some img \<and> (update_key i f, f) \<in> set (assets st')
        | _ \<Rightarrow> img = featuredImage p \<and> assets st' = assets st))"
  using assms
  by (auto simp: PUT_def save_found_def upload_def put_asset_def user_exists_def findOne_def
      split: if_splits option.splits entry.splits prod.splits)

lemma findOne_replaced:
  assumes "findOne st i = Some p"
    and "posts st' = replace_first (id_is i) ((assign body p)\<lparr>featuredImage := img\<rparr>) (posts st)"
  shows "findOne st' i = Some ((assign body p)\<lparr>featuredImage := img\<rparr>)"
proof -
  from assms(1) have "id_is i p" unfolding findOne_def by (rule find_holds)
  then have "id_is i ((assign body p)\<lparr>featuredImage := img\<rparr>)" by simp
  then have "find (id_is i) (replace_first (id_is i) ((assign body p)\<lparr>featuredImage := img\<rparr>) (posts st))
      = Some ((assign body p)\<lparr>featuredImage := img\<rparr>)"
    using assms(1) unfolding findOne_def by (rule find_replace_first)
  with assms(2) show ?thesis by (simp add: findOne_def)
qed


lemmas ex_defs =
  ex_env_def ex_store_def ex_form_def ex_form_tags_def ex_post_a_def ex_post_b_def
  ex_post_c_def ex_blank_def ex_png_def str_def ex_form_notitle_def ex_form_noid_def
  ex_form_png_def ex_form_gone_def ex_env_anon_def ex_env_ghost_def ex_env_noupload_def

lemmas handler_defs =
  POST_def PUT_def DELETE_def required_present_def user_exists_def save_new_def
  save_found_def findOne_def upload_def put_asset_def

subsection \<open>Tags\<close>

lemma length_pieces:
  "length (concat (map (\<lambda>t. map trim (split comma (to_string t))) ts)) =
   length ts + sum_list (map (\<lambda>t. count_list (to_string t) comma) ts)"
  by (induction ts) (simp_all add: length_split)

lemma pieces_no_sep:
  "\<forall>t\<in>set ts. comma \<notin> set (to_string t) \<Longrightarrow>
   concat (map (\<lambda>t. map trim (split comma (to_string t))) ts) = map (\<lambda>t. trim (to_string t)) ts"
  by (induction ts) (simp_all add: split_no_sep)

lemma length_filteredTags:
  "ts \<noteq> [] \<Longrightarrow>
   length (filteredTags ts) = length ts + sum_list (map (\<lambda>t. count_list (to_string t) comma) ts)"
  by (simp add: filteredTags_concat length_pieces)

lemma filteredTags_no_sep:
  "ts \<noteq> [] \<Longrightarrow> \<forall>t\<in>set ts. comma \<notin> set (to_string t) \<Longrightarrow>
   filteredTags ts = map (\<lambda>t. trim (to_string t)) ts"
  by (simp add: filteredTags_concat pieces_no_sep)

lemma sum_list_pos: "x \<in> set xs \<Longrightarrow> 0 < f x \<Longrightarrow> 0 < sum_list (map f xs)"
  for f :: "'a \<Rightarrow> nat"
  by (induction xs) auto

lemma count_list_pos: "c \<in> set s \<Longrightarrow> 0 < count_list s c"
  by (induction s) auto

lemma filteredTags_sep_longer:
  assumes "t \<in> set ts" and "comma \<in> set (to_string t)"
  shows "length ts < length (filteredTags ts)"
proof -
  from assms(1) have ne: "ts \<noteq> []" by auto
  have "0 < sum_list (map (\<lambda>t. count_list (to_string t) comma) ts)"
    using assms by (intro sum_list_pos [of t] count_list_pos)
  with length_filteredTags [OF ne] show ?thesis by simp
qed

lemma POST_Created_tags:
  assumes "POST e body st = (Created, st')"
  shows "\<exists>p. posts st' = posts st @ [p] \<and> tags p = filteredTags (f_tags body)"
proof -
  from POST_Created [OF assms] obtain img
    where "posts st' = posts st @ [(newPost e body)\<lparr>featuredImage := img\<rparr>]" by blast
  moreover have "tags ((newPost e body)\<lparr>featuredImage := img\<rparr>) = filteredTags (f_tags body)"
    by (simp add: newPost_def)
  ultimately show ?thesis by blast
qed

lemma PUT_Updated_tags:
  assumes "PUT e body st = (Updated, st')"
  shows "\<exists>i p. f_id body = Some i \<and> findOne st' i = Some p \<and> tags p = filteredTags (f_tags body)"
proof -
  from PUT_Updated_posts [OF assms] obtain i p img
    where i: "f_id body = Some i" and p: "findOne st i = Some p"
      and r: "posts st' = replace_first (id_is i) ((assign body p)\<lparr>featuredImage := img\<rparr>) (posts st)"
    by blast
  from findOne_replaced [OF p r]
  have "findOne st' i = Some ((assign body p)\<lparr>featuredImage := img\<rparr>)" .
  moreover have "tags ((assign body p)\<lparr>featuredImage := img\<rparr>) = filteredTags (f_tags body)"
    by (simp add: assign_def)
  ultimately show ?thesis using i by blast
qed

lemma ex_POST_Created: "fst (POST ex_env ex_form ex_store) = Created"
  by (simp add: ex_defs handler_defs js_def)

lemma ex_PUT_Updated: "fst (PUT ex_env ex_form ex_store) = Updated"
  by (simp add: ex_defs handler_defs js_def)

lemma ex_POST_tags_Created: "fst (POST ex_env ex_form_tags ex_store) = Created"
  by (simp add: ex_defs handler_defs js_def)

lemma ex_PUT_tags_Updated: "fst (PUT ex_env ex_form_tags ex_store) = Updated"
  by (simp add: ex_defs handler_defs js_def)

lemma fst_eq_pair: "fst x = a \<Longrightarrow> x = (a, snd x)"
  by (cases x) simp

text \<open>
  C10. When Create or Update receives no tag value, joining gives the empty string and
  splitting the empty string gives one empty piece: the post that is stored has the
  one-element tag list holding the empty identifier, not the empty list.
\<close>

theorem no_tags_store_one_empty_tag:
  "filteredTags [] = [[]] \<and>
   (f_tags body = [] \<and> POST e body st = (Created, st') \<longrightarrow>
      (\<exists>p. posts st' = posts st @ [p] \<and> tags p = [[]])) \<and>
   (f_tags body = [] \<and> PUT e body st = (Updated, st'') \<longrightarrow>
      (\<exists>i p. f_id body = Some i \<and> findOne st'' i = Some p \<and> tags p = [[]]))"
proof (intro conjI impI)
  show "filteredTags [] = [[]]" by (rule filteredTags_Nil)
next
  assume "f_tags body = [] \<and> POST e body st = (Created, st')"
  then show "\<exists>p. posts st' = posts st @ [p] \<and> tags p = [[]]"
    using POST_Created_tags [of e body st st'] by (simp add: filteredTags_Nil)
next
  assume "f_tags body = [] \<and> PUT e body st = (Updated, st'')"
  then show "\<exists>i p. f_id body = Some i \<and> findOne st'' i = Some p \<and> tags p = [[]]"
    using PUT_Updated_tags [of e body st st''] by (simp add: filteredTags_Nil)
qed

theorem no_tags_store_one_empty_tag_witness:
  "f_tags ex_form = [] \<and>
   POST ex_env ex_form ex_store = (Created, snd (POST ex_env ex_form ex_store)) \<and>
   (\<exists>p. posts (snd (POST ex_env ex_form ex_store)) = posts ex_store @ [p] \<and> tags p = [[]]) \<and>
   PUT ex_env ex_form ex_store = (Updated, snd (PUT ex_env ex_form ex_store)) \<and>
   (\<exists>i p. f_id ex_form = Some i \<and> findOne (snd (PUT ex_env ex_form ex_store)) i = Some p \<and>
      tags p = [[]])"
proof -
  have t: "f_tags ex_form = []" by (simp add: ex_form_def)
  have c: "POST ex_env ex_form ex_store = (Created, snd (POST ex_env ex_form ex_store))"
    using ex_POST_Created by (rule fst_eq_pair)
  have u: "PUT ex_env ex_form ex_store = (Updated, snd (PUT ex_env ex_form ex_store))"
    using ex_PUT_Updated by (rule fst_eq_pair)
  show ?thesis
    using no_tags_store_one_empty_tag [of ex_form ex_env ex_store
        "snd (POST ex_env ex_form ex_store)" "snd (PUT ex_env ex_form ex_store)"] t c u
    by blast
qed

text \<open>
  C5, as stated, at the empty list of tag values: no value contains the separator, and
  the list that is stored is not the element-wise trimmed input (the empty list).
\<close>

theorem tags_of_empty_list_counterexample:
  "filteredTags [] \<noteq> map trim (map to_string [])"
  by (simp add: filteredTags_Nil)

text \<open>
  C5, amended. Create and Update store the list obtained by joining the tag values with
  a comma, splitting at every comma and trimming each piece. For a non-empty list of
  values this is the concatenation, value by value, of the trimmed pieces of each value:
  a value without a comma gives its trimmed self, so a non-empty list in which no value
  contains a comma gives the element-wise trimmed list, and a value with a comma gives
  several tags, so the stored list is longer than the input.
\<close>

theorem tags_joined_split_trimmed:
  "(POST e body st = (Created, st') \<longrightarrow>
      (\<exists>p. posts st' = posts st @ [p] \<and>
         tags p = map trim (split comma (join [comma] (map to_string (f_tags body)))))) \<and>
   (PUT e body st = (Updated, st'') \<longrightarrow>
      (\<exists>i p. f_id body = Some i \<and> findOne st'' i = Some p \<and>
         tags p = map trim (split comma (join [comma] (map to_string (f_tags body)))))) \<and>
   (ts \<noteq> [] \<longrightarrow>
      filteredTags ts = concat (map (\<lambda>t. map trim (split comma (to_string t))) ts)) \<and>
   (ts \<noteq> [] \<and> (\<forall>t\<in>set ts. comma \<notin> set (to_string t)) \<longrightarrow>
      filteredTags ts = map (\<lambda>t. trim (to_string t)) ts) \<and>
   ((\<exists>t\<in>set ts. comma \<in> set (to_string t)) \<longrightarrow> length ts < length (filteredTags ts))"
proof (intro conjI impI)
  assume "POST e body st = (Created, st')"
  from POST_Created_tags [OF this]
  show "\<exists>p. posts st' = posts st @ [p] \<and>
      tags p = map trim (split comma (join [comma] (map to_string (f_tags body))))"
    by (simp add: filteredTags_def tagsString_def)
next
  assume "PUT e body st = (Updated, st'')"
  from PUT_Updated_tags [OF this]
  show "\<exists>i p. f_id body = Some i \<and> findOne st'' i = Some p \<and>
      tags p = map trim (split comma (join [comma] (map to_string (f_tags body))))"
    by (simp add: filteredTags_def tagsString_def)
next
  assume "ts \<noteq> []"
  then show "filteredTags ts = concat (map (\<lambda>t. map trim (split comma (to_string t))) ts)"
    by (rule filteredTags_concat)
next
  assume "ts \<noteq> [] \<and> (\<forall>t\<in>set ts. comma \<notin> set (to_string t))"
  then show "filteredTags ts = map (\<lambda>t. trim (to_string t)) ts"
    by (simp add: filteredTags_no_sep)
next
  assume "\<exists>t\<in>set ts. comma \<in> set (to_string t)"
  then show "length ts < length (filteredTags ts)"
    by (blast intro: filteredTags_sep_longer)
qed

lemma ex_tags_value:
  "map trim (split comma (join [comma] (map to_string (f_tags ex_form_tags)))) =
   [js ''a'', js ''b'', js ''c'']"
  by (simp add: ex_defs js_def comma_def trim_def is_ws_def)

theorem tags_joined_split_trimmed_witness:
  "POST ex_env ex_form_tags ex_store = (Created, snd (POST ex_env ex_form_tags ex_store)) \<and>
   (\<exists>p. posts (snd (POST ex_env ex_form_tags ex_store)) = posts ex_store @ [p] \<and>
      tags p = [js ''a'', js ''b'', js ''c'']) \<and>
   PUT ex_env ex_form_tags ex_store = (Updated, snd (PUT ex_env ex_form_tags ex_store)) \<and>
   (\<exists>i p. f_id ex_form_tags = Some i \<and>
      findOne (snd (PUT ex_env ex_form_tags ex_store)) i = Some p \<and>
      tags p = [js ''a'', js ''b'', js ''c'']) \<and>
   comma \<notin> set (to_string (EStr (js '' a ''))) \<and> comma \<notin> set (to_string (EStr (js ''b''))) \<and>
   filteredTags [EStr (js '' a ''), EStr (js ''b'')] = [js ''a'', js ''b''] \<and>
   comma \<in> set (to_string (EStr (js ''b,c''))) \<and>
   length [EStr (js ''b,c'')] < length (filteredTags [EStr (js ''b,c'')])"
proof -
  have c: "POST ex_env ex_form_tags ex_store = (Created, snd (POST ex_env ex_form_tags ex_store))"
    using ex_POST_tags_Created by (rule fst_eq_pair)
  have u: "PUT ex_env ex_form_tags ex_store = (Updated, snd (PUT ex_env ex_form_tags ex_store))"
    using ex_PUT_tags_Updated by (rule fst_eq_pair)
  have n: "\<forall>t\<in>set [EStr (js '' a ''), EStr (js ''b'')]. comma \<notin> set (to_string t)"
    by (simp add: js_def comma_def)
  have m: "\<exists>t\<in>set [EStr (js ''b,c'')]. comma \<in> set (to_string t)"
    by (simp add: js_def comma_def)
  have v: "map (\<lambda>t. trim (to_string t)) [EStr (js '' a ''), EStr (js ''b'')] = [js ''a'', js ''b'']"
    by (simp add: js_def trim_def is_ws_def)
  note a = tags_joined_split_trimmed [of ex_env ex_form_tags ex_store
      "snd (POST ex_env ex_form_tags ex_store)" "snd (PUT ex_env ex_form_tags ex_store)"
      "[EStr (js '' a ''), EStr (js ''b'')]"]
  note b = tags_joined_split_trimmed [of ex_env ex_form_tags ex_store
      "snd (POST ex_env ex_form_tags ex_store)" "snd (PUT ex_env ex_form_tags ex_store)"
      "[EStr (js ''b,c'')]"]
  from a c have 1: "\<exists>p. posts (snd (POST ex_env ex_form_tags ex_store)) = posts ex_store @ [p] \<and>
      tags p = [js ''a'', js ''b'', js ''c'']"
    unfolding ex_tags_value by blast
  from a u have 2: "\<exists>i p. f_id ex_form_tags = Some i \<and>
      findOne (snd (PUT ex_env ex_form_tags ex_store)) i = Some p \<and>
      tags p = [js ''a'', js ''b'', js ''c'']"
    unfolding ex_tags_value by blast
  from a n have 3: "filteredTags [EStr (js '' a ''), EStr (js ''b'')] = [js ''a'', js ''b'']"
    unfolding v by blast
  from b m have 4: "length [EStr (js ''b,c'')] < length (filteredTags [EStr (js ''b,c'')])"
    by blast
  have n': "comma \<notin> set (to_string (EStr (js '' a ''))) \<and> comma \<notin> set (to_string (EStr (js ''b'')))"
    using n by simp
  have m': "comma \<in> set (to_string (EStr (js ''b,c'')))"
    using m by simp
  from c 1 u 2 n' 3 m' 4 show ?thesis by blast
qed

subsection \<open>Validation, authorization and the user\<close>

text \<open>
  C3. The payload is validated before the session is looked at: Create and Update answer
  ValidationFailed when a required field (title, content, author, category, subcategory)
  is missing, and Delete when its identifier is missing, whether or not a session is
  present. Past that check a missing session gives Unauthorized and, the store answering
  the look-up, a session whose user is not in the store gives UserNotFound. In each of
  these cases the state after the request is the state before it. (The target of Update
  is examined after these three checks: without \<^verbatim>\<open>_id\<close> the answer is then InvalidPost.)
\<close>

theorem validation_before_authorization:
  "(\<not> required_present body \<longrightarrow>
      POST e body st = (ValidationFailed, st) \<and> PUT e body st = (ValidationFailed, st)) \<and>
   (i = None \<or> i = Some [] \<longrightarrow> DELETE e i st = (ValidationFailed, st)) \<and>
   (required_present body \<and> session e = None \<longrightarrow>
      POST e body st = (Unauthorized, st) \<and> PUT e body st = (Unauthorized, st)) \<and>
   (i = Some s \<and> s \<noteq> [] \<and> session e = None \<longrightarrow> DELETE e i st = (Unauthorized, st)) \<and>
   (session e = Some u \<and> u \<notin> set (users st) \<and> fault_of e Conn = None \<and>
    fault_of e UserFindOne = None \<longrightarrow>
      (required_present body \<longrightarrow>
         POST e body st = (UserNotFound, st) \<and> PUT e body st = (UserNotFound, st)) \<and>
      (i = Some s \<and> s \<noteq> [] \<longrightarrow> DELETE e i st = (UserNotFound, st))) \<and>
   (required_present body \<and> \<not> truthy (f_id body) \<and> session e = Some u \<and> u \<in> set (users st) \<and>
    fault_of e Conn = None \<and> fault_of e UserFindOne = None \<longrightarrow>
      PUT e body st = (InvalidPost, st))"
  by (auto simp: handler_defs)


lemma ex_required:
  "\<not> required_present ex_form_notitle" "required_present ex_form"
  "required_present ex_form_noid" "\<not> truthy (f_id ex_form_noid)" "required_present ex_form_png"
  "required_present ex_form_gone"
  by (simp_all add: ex_defs required_present_def js_def)

lemma ex_sessions:
  "session ex_env_anon = None"
  "session ex_env_ghost = Some (js ''u9'')" "js ''u9'' \<notin> set (users ex_store)"
  "session ex_env = Some (js ''u1'')" "js ''u1'' \<in> set (users ex_store)"
  "session ex_env_noupload = Some (js ''u1'')"
  by (simp_all add: ex_defs js_def)

lemma ex_no_fault:
  "fault_of ex_env x = None" "fault_of ex_env_ghost x = None" "fault_of ex_env_anon x = None"
  "fault_of ex_env_noupload x = None"
  by (simp_all add: ex_defs)

lemma js_a_not_empty: "js ''a'' \<noteq> []"
  by (simp add: js_def)

theorem validation_before_authorization_witness:
  "\<not> required_present ex_form_notitle \<and> session ex_env_anon = None \<and>
   POST ex_env_anon ex_form_notitle ex_store = (ValidationFailed, ex_store) \<and>
   PUT ex_env_anon ex_form_notitle ex_store = (ValidationFailed, ex_store) \<and>
   DELETE ex_env_anon None ex_store = (ValidationFailed, ex_store) \<and>
   required_present ex_form \<and>
   POST ex_env_anon ex_form ex_store = (Unauthorized, ex_store) \<and>
   PUT ex_env_anon ex_form ex_store = (Unauthorized, ex_store) \<and>
   DELETE ex_env_anon (Some (js ''a'')) ex_store = (Unauthorized, ex_store) \<and>
   session ex_env_ghost = Some (js ''u9'') \<and> js ''u9'' \<notin> set (users ex_store) \<and>
   POST ex_env_ghost ex_form ex_store = (UserNotFound, ex_store) \<and>
   PUT ex_env_ghost ex_form ex_store = (UserNotFound, ex_store) \<and>
   DELETE ex_env_ghost (Some (js ''a'')) ex_store = (UserNotFound, ex_store) \<and>
   required_present ex_form_noid \<and> \<not> truthy (f_id ex_form_noid) \<and>
   PUT ex_env ex_form_noid ex_store = (InvalidPost, ex_store)"
proof -
  note a = validation_before_authorization [where body = ex_form_notitle and e = ex_env_anon
      and st = ex_store and i = None and s = "[]" and u = "[]"]
  note b = validation_before_authorization [where body = ex_form and e = ex_env_anon
      and st = ex_store and i = "Some (js ''a'')" and s = "js ''a''" and u = "[]"]
  note c = validation_before_authorization [where body = ex_form and e = ex_env_ghost
      and st = ex_store and i = "Some (js ''a'')" and s = "js ''a''" and u = "js ''u9''"]
  note d = validation_before_authorization [where body = ex_form_noid and e = ex_env
      and st = ex_store and i = None and s = "[]" and u = "js ''u1''"]
  from a have 1: "POST ex_env_anon ex_form_notitle ex_store = (ValidationFailed, ex_store)"
    and 2: "PUT ex_env_anon ex_form_notitle ex_store = (ValidationFailed, ex_store)"
    and 3: "DELETE ex_env_anon None ex_store = (ValidationFailed, ex_store)"
    using ex_required(1) by blast+
  from b have 4: "POST ex_env_anon ex_form ex_store = (Unauthorized, ex_store)"
    and 5: "PUT ex_env_anon ex_form ex_store = (Unauthorized, ex_store)"
    and 6: "DELETE ex_env_anon (Some (js ''a'')) ex_store = (Unauthorized, ex_store)"
    using ex_required(2) ex_sessions(1) js_a_not_empty by blast+
  from c have 7: "POST ex_env_ghost ex_form ex_store = (UserNotFound, ex_store)"
    and 8: "PUT ex_env_ghost ex_form ex_store = (UserNotFound, ex_store)"
    and 9: "DELETE ex_env_ghost (Some (js ''a'')) ex_store = (UserNotFound, ex_store)"
    using ex_required(2) ex_sessions(2,3) ex_no_fault(2) js_a_not_empty by blast+
  from d have 10: "PUT ex_env ex_form_noid ex_store = (InvalidPost, ex_store)"
    using ex_required(3,4) ex_sessions(4,5) ex_no_fault(1) by blast
  from 1 2 3 4 5 6 7 8 9 10 ex_required ex_sessions show ?thesis by blast
qed

subsection \<open>Targets that do not exist, and deletion\<close>

lemma filter_other_ids:
  "s \<notin> post_id ` set ps \<Longrightarrow> filter (\<lambda>p. post_id p \<noteq> s) ps = ps"
  by (induction ps) auto

lemma remove_first_distinct:
  "distinct (map post_id ps) \<Longrightarrow>
   remove_first (id_is (EStr s)) ps = filter (\<lambda>p. post_id p \<noteq> s) ps"
  by (induction ps) (auto simp: filter_other_ids)

lemma find_filter_other_ids: "find (id_is (EStr s)) (filter (\<lambda>p. post_id p \<noteq> s) ps) = None"
  by (induction ps) auto

lemma DELETE_reached:
  assumes "s \<noteq> []" "session e = Some u" "u \<in> set (users st)" "fault_of e Conn = None"
    "fault_of e UserFindOne = None" "fault_of e PostFindOneAndDelete = None"
  shows "DELETE e (Some s) st =
    (case findOne st (EStr s) of
       None \<Rightarrow> (PostNotFound, st)
     | Some p \<Rightarrow> (Deleted, st\<lparr>posts := remove_first (id_is (EStr s)) (posts st)\<rparr>))"
  using assms by (simp add: DELETE_def user_exists_def findOne_def)

lemma ex_findOne:
  "findOne ex_store (EStr (js ''q'')) = None"
  "findOne ex_store (EStr (js ''a'')) = Some ex_post_a"
  "distinct (map post_id (posts ex_store))"
  by (simp_all add: ex_defs findOne_def js_def)

lemma ex_ids:
  "f_id ex_form_gone = Some (EStr (js ''q''))" "truthy (Some (EStr (js ''q'')))"
  "js ''q'' \<noteq> []" "f_id ex_form = Some (EStr (js ''a''))"
  "f_featuredImage ex_form = None" "f_featuredImage ex_form_png = Some (EFile ex_png)"
  by (simp_all add: ex_defs js_def)

lemma map_replace_first:
  "(\<And>x. x \<in> set xs \<Longrightarrow> P x \<Longrightarrow> f x = f y) \<Longrightarrow> map f (replace_first P y xs) = map f xs"
  by (induction xs) auto

lemma set_remove_first: "set (remove_first P xs) \<subseteq> set xs"
  by (induction xs) auto

lemma distinct_remove_first:
  "distinct (map f xs) \<Longrightarrow> distinct (map f (remove_first P xs))"
proof (induction xs)
  case Nil
  show ?case by simp
next
  case (Cons x xs)
  then show ?case using set_remove_first [of P xs] by auto
qed

lemma id_is_post_id: "id_is i x \<Longrightarrow> id_is i y \<Longrightarrow> post_id x = post_id y"
  by (cases i) simp_all

text \<open>
  Identifiers are unique in the collection of posts, and the handlers keep them so; for
  Create this rests on the identifier of a new document being fresh.
\<close>

lemma identifiers_stay_unique:
  assumes "distinct (map post_id (posts st))"
  shows "post_id (blank e) \<notin> post_id ` set (posts st) \<Longrightarrow>
      distinct (map post_id (posts (snd (POST e body st))))"
    and "distinct (map post_id (posts (snd (PUT e body st))))"
    and "distinct (map post_id (posts (snd (DELETE e i st))))"
proof -
  show "distinct (map post_id (posts (snd (POST e body st))))"
    if "post_id (blank e) \<notin> post_id ` set (posts st)"
  proof (cases "fst (POST e body st) = Created")
    case True
    then have "POST e body st = (Created, snd (POST e body st))" by (rule fst_eq_pair)
    from POST_Created [OF this] obtain img
      where "posts (snd (POST e body st)) = posts st @ [(newPost e body)\<lparr>featuredImage := img\<rparr>]"
      by blast
    moreover have "post_id ((newPost e body)\<lparr>featuredImage := img\<rparr>) = post_id (blank e)"
      by (simp add: newPost_def)
    ultimately show ?thesis using assms that by simp
  next
    case False
    then show ?thesis using assms by (simp add: POST_not_Created)
  qed
  show "distinct (map post_id (posts (snd (PUT e body st))))"
  proof (cases "fst (PUT e body st) = Updated")
    case True
    then have "PUT e body st = (Updated, snd (PUT e body st))" by (rule fst_eq_pair)
    from PUT_Updated_posts [OF this] obtain j p img
      where p: "findOne st j = Some p"
        and r: "posts (snd (PUT e body st)) =
          replace_first (id_is j) ((assign body p)\<lparr>featuredImage := img\<rparr>) (posts st)"
      by blast
    from p have "id_is j p" unfolding findOne_def by (rule find_holds)
    then have "id_is j ((assign body p)\<lparr>featuredImage := img\<rparr>)" by simp
    then have "map post_id (posts (snd (PUT e body st))) = map post_id (posts st)"
      unfolding r by (intro map_replace_first id_is_post_id)
    with assms show ?thesis by simp
  next
    case False
    then show ?thesis using assms by (simp add: PUT_not_Updated)
  qed
  show "distinct (map post_id (posts (snd (DELETE e i st))))"
    using assms by (auto simp: DELETE_def distinct_remove_first split: option.splits)
qed

lemma PUT_absent_unchanged:
  "f_id body = Some i \<Longrightarrow> findOne st i = None \<Longrightarrow>
   fst (PUT e body st) \<noteq> Updated \<and> snd (PUT e body st) = st"
  by (auto simp: PUT_def split: option.splits)

lemma DELETE_absent_unchanged:
  "findOne st (EStr s) = None \<Longrightarrow>
   fst (DELETE e (Some s) st) \<noteq> Deleted \<and> snd (DELETE e (Some s) st) = st"
  by (auto simp: DELETE_def findOne_def split: option.splits)

text \<open>
  C9. An Update whose identifier is that of no stored post never changes the state, and
  when it passes validation and authorization (the store answering) its answer is
  NotFound. A Delete of an identifier that no post has never changes the state either,
  and past the same checks its answer is NotFound; when a post has the identifier, the
  answer is Deleted and the post is gone: identifiers being unique in the collection,
  the posts left are those with another identifier, a fetch by the identifier finds
  nothing, and a second Delete answers NotFound.
\<close>

theorem absent_target_and_delete:
  "(f_id body = Some i \<and> findOne st i = None \<longrightarrow>
      fst (PUT e body st) \<noteq> Updated \<and> snd (PUT e body st) = st) \<and>
   (findOne st (EStr s) = None \<longrightarrow>
      fst (DELETE e (Some s) st) \<noteq> Deleted \<and> snd (DELETE e (Some s) st) = st) \<and>
   (required_present body \<and> session e = Some u \<and> u \<in> set (users st) \<and>
    fault_of e Conn = None \<and> fault_of e UserFindOne = None \<and> fault_of e PostFindOne = None \<and>
    f_id body = Some i \<and> truthy (Some i) \<and> findOne st i = None \<longrightarrow>
      PUT e body st = (PostNotFound, st)) \<and>
   (s \<noteq> [] \<and> session e = Some u \<and> u \<in> set (users st) \<and> fault_of e Conn = None \<and>
    fault_of e UserFindOne = None \<and> fault_of e PostFindOneAndDelete = None \<longrightarrow>
      (findOne st (EStr s) = None \<longrightarrow> DELETE e (Some s) st = (PostNotFound, st)) \<and>
      (findOne st (EStr s) \<noteq> None \<and> distinct (map post_id (posts st)) \<longrightarrow>
         (\<exists>st'. DELETE e (Some s) st = (Deleted, st') \<and>
            posts st' = filter (\<lambda>p. post_id p \<noteq> s) (posts st) \<and>
            findOne st' (EStr s) = None \<and>
            DELETE e (Some s) st' = (PostNotFound, st'))))"
proof (intro conjI impI)
  assume "f_id body = Some i \<and> findOne st i = None"
  then show "fst (PUT e body st) \<noteq> Updated" "snd (PUT e body st) = st"
    using PUT_absent_unchanged [of body i st e] by simp_all
next
  assume "findOne st (EStr s) = None"
  then show "fst (DELETE e (Some s) st) \<noteq> Deleted" "snd (DELETE e (Some s) st) = st"
    using DELETE_absent_unchanged [of st s e] by simp_all
next
  assume "required_present body \<and> session e = Some u \<and> u \<in> set (users st) \<and>
    fault_of e Conn = None \<and> fault_of e UserFindOne = None \<and> fault_of e PostFindOne = None \<and>
    f_id body = Some i \<and> truthy (Some i) \<and> findOne st i = None"
  then show "PUT e body st = (PostNotFound, st)"
    by (simp add: PUT_def user_exists_def)
next
  assume r: "s \<noteq> [] \<and> session e = Some u \<and> u \<in> set (users st) \<and> fault_of e Conn = None \<and>
    fault_of e UserFindOne = None \<and> fault_of e PostFindOneAndDelete = None"
  assume "findOne st (EStr s) = None"
  with r show "DELETE e (Some s) st = (PostNotFound, st)"
    by (simp add: DELETE_reached)
next
  assume r: "s \<noteq> [] \<and> session e = Some u \<and> u \<in> set (users st) \<and> fault_of e Conn = None \<and>
    fault_of e UserFindOne = None \<and> fault_of e PostFindOneAndDelete = None"
  assume f: "findOne st (EStr s) \<noteq> None \<and> distinct (map post_id (posts st))"
  define st' where "st' = st\<lparr>posts := remove_first (id_is (EStr s)) (posts st)\<rparr>"
  from f have p: "posts st' = filter (\<lambda>p. post_id p \<noteq> s) (posts st)"
    by (simp add: st'_def remove_first_distinct)
  then have n: "findOne st' (EStr s) = None"
    by (simp add: findOne_def find_filter_other_ids)
  have u: "users st' = users st" by (simp add: st'_def)
  from r f have d: "DELETE e (Some s) st = (Deleted, st')"
    by (auto simp: DELETE_reached st'_def)
  from r u n have "DELETE e (Some s) st' = (PostNotFound, st')"
    by (simp add: DELETE_reached)
  with d p n show "\<exists>st'. DELETE e (Some s) st = (Deleted, st') \<and>
      posts st' = filter (\<lambda>p. post_id p \<noteq> s) (posts st) \<and>
      findOne st' (EStr s) = None \<and> DELETE e (Some s) st' = (PostNotFound, st')"
    by blast
qed

theorem absent_target_and_delete_witness:
  "findOne ex_store (EStr (js ''q'')) = None \<and>
   PUT ex_env ex_form_gone ex_store = (PostNotFound, ex_store) \<and>
   DELETE ex_env (Some (js ''q'')) ex_store = (PostNotFound, ex_store) \<and>
   findOne ex_store (EStr (js ''a'')) \<noteq> None \<and> distinct (map post_id (posts ex_store)) \<and>
   (\<exists>st'. DELETE ex_env (Some (js ''a'')) ex_store = (Deleted, st') \<and>
      posts st' = filter (\<lambda>p. post_id p \<noteq> js ''a'') (posts ex_store) \<and>
      findOne st' (EStr (js ''a'')) = None \<and>
      DELETE ex_env (Some (js ''a'')) st' = (PostNotFound, st'))"
proof -
  note a = absent_target_and_delete [where body = ex_form_gone and e = ex_env
      and st = ex_store and u = "js ''u1''" and i = "EStr (js ''q'')" and s = "js ''q''"]
  note b = absent_target_and_delete [where body = ex_form_gone and e = ex_env
      and st = ex_store and u = "js ''u1''" and i = "EStr (js ''q'')" and s = "js ''a''"]
  from a have 1: "PUT ex_env ex_form_gone ex_store = (PostNotFound, ex_store)"
    using ex_required(6) ex_sessions(4,5) ex_no_fault(1) ex_ids(1,2) ex_findOne(1) by blast
  from a have 2: "DELETE ex_env (Some (js ''q'')) ex_store = (PostNotFound, ex_store)"
    using ex_sessions(4,5) ex_no_fault(1) ex_ids(3) ex_findOne(1) by blast
  have n: "findOne ex_store (EStr (js ''a'')) \<noteq> None" by (simp add: ex_findOne(2))
  from b have 3: "\<exists>st'. DELETE ex_env (Some (js ''a'')) ex_store = (Deleted, st') \<and>
      posts st' = filter (\<lambda>p. post_id p \<noteq> js ''a'') (posts ex_store) \<and>
      findOne st' (EStr (js ''a'')) = None \<and>
      DELETE ex_env (Some (js ''a'')) st' = (PostNotFound, st')"
    using ex_sessions(4,5) ex_no_fault(1) js_a_not_empty n ex_findOne(3) by blast
  from 1 2 3 n ex_findOne(1,3) show ?thesis by blast
qed

subsection \<open>What Update overwrites and what it keeps\<close>

text \<open>
  C8. After a successful Update the stored post with the target identifier has the title,
  content, excerpt, author, category, subcategory, tags (normalised), meta title, meta
  description, meta keywords, image credit and status of the request, whatever they are
  (an absent field is stored as absent), and the identifier, slug, publish date and
  updated date it had before. Its featured image is the one it had before when the
  request carries no file, and the URL the asset store returned when it does. The post
  takes the place of the old one in the collection.
\<close>

theorem update_overwrites_listed_fields:
  assumes "PUT e body st = (Updated, st')"
  shows "\<exists>i p p'. f_id body = Some i \<and> findOne st i = Some p \<and> findOne st' i = Some p' \<and>
    posts st' = replace_first (id_is i) p' (posts st) \<and>
    title p' = f_title body \<and> content p' = f_content body \<and> excerpt p' = f_excerpt body \<and>
    author p' = f_author body \<and> category p' = f_category body \<and>
    subcategory p' = f_subcategory body \<and> tags p' = filteredTags (f_tags body) \<and>
    metaTitle p' = f_metaTitle body \<and> metaDescription p' = f_metaDescription body \<and>
    metaKeywords p' = f_metaKeywords body \<and> imageCredit p' = f_imageCredit body \<and>
    status p' = f_status body \<and>
    post_id p' = post_id p \<and> slug p' = slug p \<and> publish_date p' = publish_date p \<and>
    updated_date p' = updated_date p \<and>
    ((\<forall>f. f_featuredImage body \<noteq> Some (EFile f)) \<longrightarrow> featuredImage p' = featuredImage p) \<and>
    (\<forall>f. f_featuredImage body = Some (EFile f) \<longrightarrow>
       download_url e (update_key i f) = Some (featuredImage p'))"
proof -
  from PUT_Updated_posts [OF assms] obtain i p img
    where i: "f_id body = Some i" and p: "findOne st i = Some p"
      and r: "posts st' = replace_first (id_is i) ((assign body p)\<lparr>featuredImage := img\<rparr>) (posts st)"
      and g: "case f_featuredImage body of
          Some (EFile f) \<Rightarrow>
            download_url e (update_key i f) = Some img \<and> (update_key i f, f) \<in> set (assets st')
        | _ \<Rightarrow> img = featuredImage p \<and> assets st' = assets st"
    by blast
  let ?p' = "(assign body p)\<lparr>featuredImage := img\<rparr>"
  from findOne_replaced [OF p r] have f: "findOne st' i = Some ?p'" .
  have fields: "title ?p' = f_title body \<and> content ?p' = f_content body \<and> excerpt ?p' = f_excerpt body \<and>
    author ?p' = f_author body \<and> category ?p' = f_category body \<and>
    subcategory ?p' = f_subcategory body \<and> tags ?p' = filteredTags (f_tags body) \<and>
    metaTitle ?p' = f_metaTitle body \<and> metaDescription ?p' = f_metaDescription body \<and>
    metaKeywords ?p' = f_metaKeywords body \<and> imageCredit ?p' = f_imageCredit body \<and>
    status ?p' = f_status body"
    by (simp add: assign_def)
  have kept: "post_id ?p' = post_id p \<and> slug ?p' = slug p \<and> publish_date ?p' = publish_date p \<and>
    updated_date ?p' = updated_date p"
    by (simp add: assign_def)
  have im1: "(\<forall>f. f_featuredImage body \<noteq> Some (EFile f)) \<longrightarrow> featuredImage ?p' = featuredImage p"
    using g by (auto split: option.splits entry.splits)
  have im2: "\<forall>f. f_featuredImage body = Some (EFile f) \<longrightarrow>
       download_url e (update_key i f) = Some (featuredImage ?p')"
    using g by (auto split: option.splits entry.splits)
  from i p f r fields kept im1 im2 show ?thesis by blast
qed

theorem update_overwrites_listed_fields_witness:
  "PUT ex_env ex_form ex_store = (Updated, snd (PUT ex_env ex_form ex_store)) \<and>
   (\<exists>p'. findOne (snd (PUT ex_env ex_form ex_store)) (EStr (js ''a'')) = Some p' \<and>
      title p' = str ''New title'' \<and> excerpt p' = None \<and> status p' = str ''draft'' \<and>
      tags p' = [[]] \<and> slug p' = str ''first'' \<and> publish_date p' = 300 \<and>
      featuredImage p' = js ''http://img/a'')"
proof -
  have u: "PUT ex_env ex_form ex_store = (Updated, snd (PUT ex_env ex_form ex_store))"
    using ex_PUT_Updated by (rule fst_eq_pair)
  from update_overwrites_listed_fields [OF u] obtain i p p'
    where i: "f_id ex_form = Some i" and p: "findOne ex_store i = Some p"
      and p': "findOne (snd (PUT ex_env ex_form ex_store)) i = Some p'"
      and f: "title p' = f_title ex_form" "excerpt p' = f_excerpt ex_form"
        "status p' = f_status ex_form" "tags p' = filteredTags (f_tags ex_form)"
      and k: "slug p' = slug p" "publish_date p' = publish_date p"
      and g: "(\<forall>f. f_featuredImage ex_form \<noteq> Some (EFile f)) \<longrightarrow> featuredImage p' = featuredImage p"
    by blast
  from i have i': "i = EStr (js ''a'')" by (simp add: ex_ids)
  with p have q: "p = ex_post_a" by (simp add: ex_findOne)
  from f have 1: "title p' = str ''New title'' \<and> excerpt p' = None \<and> status p' = str ''draft'' \<and>
      tags p' = [[]]"
    by (simp add: ex_form_def filteredTags_Nil)
  from k q have 2: "slug p' = str ''first'' \<and> publish_date p' = 300"
    by (simp add: ex_post_a_def)
  from g q have 3: "featuredImage p' = js ''http://img/a''"
    by (simp add: ex_ids ex_post_a_def)
  from u p' i' 1 2 3 show ?thesis by blast
qed

subsection \<open>Rounding to binary64\<close>

lemma bits_bounds: "0 < n \<Longrightarrow> 2 ^ (bits n - 1) \<le> n \<and> n < 2 ^ bits n"
proof (induction n rule: bits.induct)
  case (1 n)
  then have n: "n \<noteq> 0" by simp
  then have b: "bits n = Suc (bits (n div 2))" by (subst bits.simps) simp
  show ?case
  proof (cases "n div 2 = 0")
    case True
    with n have "n = 1" by arith
    moreover have "bits (0::nat) = 0" by (subst bits.simps) simp
    ultimately show ?thesis using b True by simp
  next
    case False
    with 1(1) [OF n] have ih: "2 ^ (bits (n div 2) - 1) \<le> n div 2" "n div 2 < 2 ^ bits (n div 2)"
      by simp_all
    from False have "bits (n div 2) = Suc (bits (n div 2 div 2))" by (subst bits.simps) simp
    then have "(2::nat) ^ bits (n div 2) = 2 * 2 ^ (bits (n div 2) - 1)" by simp
    with ih(1) have "(2::nat) ^ bits (n div 2) \<le> 2 * (n div 2)" by simp
    then have l: "(2::nat) ^ (bits n - 1) \<le> n" using b by simp
    from ih(2) have "n div 2 + 1 \<le> 2 ^ bits (n div 2)" by simp
    then have "2 * (n div 2 + 1) \<le> 2 * 2 ^ bits (n div 2)" by simp
    moreover have "n < 2 * (n div 2 + 1)" by simp
    ultimately have "n < 2 ^ bits n" using b by simp
    with l show ?thesis by simp
  qed
qed

lemma powi_nat: "0 \<le> d \<Longrightarrow> (2::real) powi d = 2 ^ nat d"
  by (simp add: power_int_def)

lemma powi_neg: "d \<le> 0 \<Longrightarrow> (2::real) powi d = 1 / 2 ^ nat (- d)"
  by (cases "d = 0") (simp_all add: power_int_def inverse_eq_divide power_one_over)

lemma bits_powi:
  assumes "0 < n"
  shows "2 powi (int (bits n) - 1) \<le> real n" and "real n < 2 powi int (bits n)"
proof -
  from bits_bounds [OF assms] have l: "2 ^ (bits n - 1) \<le> n" and u: "n < 2 ^ bits n" by simp_all
  from u have p: "0 < bits n" using assms by (cases "bits n") auto
  then have "(2::real) powi (int (bits n) - 1) = 2 ^ (bits n - 1)"
    by (simp add: powi_nat nat_diff_distrib')
  also have "\<dots> \<le> real n" using of_nat_mono [OF l, where ?'a = real] by simp
  finally show "2 powi (int (bits n) - 1) \<le> real n" .
  from u have "real n < real (2 ^ bits n)" by (simp only: of_nat_less_iff)
  then have "real n < 2 ^ bits n" by simp
  then show "real n < 2 powi int (bits n)" by (simp add: powi_nat)
qed

lemma expo_lower:
  assumes "0 < a" "0 < b"
  shows "real b * 2 powi expo a b \<le> real a"
proof -
  define d where "d = int (bits a) - int (bits b)"
  show ?thesis
  proof (cases "b * 2 ^ nat d \<le> a * 2 ^ nat (- d)")
    case True
    then have e: "expo a b = d" by (simp add: expo_def d_def Let_def)
    from of_nat_mono [OF True, where ?'a = real]
    have r: "real b * 2 ^ nat d \<le> real a * 2 ^ nat (- d)" by simp
    show ?thesis
    proof (cases "0 \<le> d")
      case True
      with r show ?thesis by (simp add: e powi_nat)
    next
      case False
      with r show ?thesis by (simp add: e powi_neg field_simps)
    qed
  next
    case False
    then have e: "expo a b = d - 1" by (simp add: expo_def d_def Let_def)
    have "real b * 2 powi (d - 1) \<le> 2 powi int (bits b) * 2 powi (d - 1)"
      using bits_powi(2) [OF assms(2)] by (intro mult_right_mono) simp_all
    also have "\<dots> = 2 powi (int (bits a) - 1)"
    proof -
      have x: "int (bits a) - 1 = int (bits b) + (d - 1)" by (simp add: d_def)
      show ?thesis unfolding x by (rule power_int_add [symmetric]) simp
    qed
    also have "\<dots> \<le> real a" by (rule bits_powi(1) [OF assms(1)])
    finally show ?thesis by (simp add: e)
  qed
qed

lemma expo_less:
  assumes "0 < a" "0 < b" "real a < real b * 2 powi k"
  shows "expo a b < k"
proof -
  from expo_lower [OF assms(1,2)] assms(3) have "real b * 2 powi expo a b < real b * 2 powi k"
    by linarith
  with assms(2) have l: "(2::real) powi expo a b < 2 powi k" by simp
  show ?thesis
  proof (rule ccontr)
    assume "\<not> expo a b < k"
    then have "k \<le> expo a b" by simp
    then have "(2::real) powi k \<le> 2 powi expo a b" by (intro power_int_increasing) simp_all
    with l show False by simp
  qed
qed

lemma round_even_exact: "0 < den \<Longrightarrow> round_even (k * den) den = k"
  by (simp add: round_even_def)

lemma round_even_le:
  assumes "0 < den" "num \<le> k * den"
  shows "round_even num den \<le> k"
proof -
  have "num div den \<le> k * den div den" using assms(2) by (rule div_le_mono)
  with assms(1) have q: "num div den \<le> k" by simp
  show ?thesis
  proof (cases "num div den = k")
    case True
    with div_mult_mod_eq [of num den] have "k * den + num mod den = num" by simp
    with assms(2) have "num mod den = 0" by linarith
    with True assms(1) show ?thesis by (simp add: round_even_def Let_def)
  next
    case False
    with q show ?thesis by (simp add: round_even_def Let_def)
  qed
qed

lemma round_even_ge:
  assumes "0 < den" "k * den \<le> num"
  shows "k \<le> round_even num den"
proof -
  have "k * den div den \<le> num div den" using assms(2) by (rule div_le_mono)
  with assms(1) have "k \<le> num div den" by simp
  then show ?thesis by (simp add: round_even_def Let_def)
qed

lemma round_even_error:
  assumes "0 < den"
  shows "\<bar>real (round_even num den) - real num / real den\<bar> \<le> 1 / 2"
proof -
  define q r where "q = num div den" and "r = num mod den"
  have "real (q * den + r) = real num" by (simp add: q_def r_def)
  then have d: "real num = real q * real den + real r" by simp
  have r: "r < den" using assms by (simp add: r_def)
  from assms have p: "0 < real den" by simp
  have x: "real num / real den = real q + real r / real den"
    using p by (simp add: d field_simps)
  show ?thesis
  proof (cases "den < 2 * r \<or> (den = 2 * r \<and> odd q)")
    case True
    then have "round_even num den = q + 1" by (simp add: round_even_def q_def r_def Let_def)
    moreover from True have "den \<le> 2 * r" by auto
    from of_nat_mono [OF this, where ?'a = real] have "real den \<le> 2 * real r" by simp
    then have "1 / 2 \<le> real r / real den" using p by (simp add: field_simps)
    moreover from r have "real r / real den \<le> 1" using p by simp
    ultimately show ?thesis by (simp add: x)
  next
    case False
    then have "round_even num den = q" by (simp add: round_even_def q_def r_def Let_def)
    moreover from False have "2 * r \<le> den" by auto
    from of_nat_mono [OF this, where ?'a = real] have "2 * real r \<le> real den" by simp
    then have "real r / real den \<le> 1 / 2" using p by (simp add: field_simps)
    moreover have "0 \<le> real r / real den" by simp
    ultimately show ?thesis by (simp add: x)
  qed
qed

lemma round_ratio_small:
  assumes "0 < a" "0 < b" "real a < real b * 2 ^ 53"
  shows "\<exists>s. round_ratio a b = Some (round_even (a * 2 ^ s) b, - int s) \<and>
    (s = 1074 \<or> real b * 2 powi (52 - int s) \<le> real a)"
proof -
  define t where "t = max (expo a b - 52) (- 1074)"
  define s where "s = nat (- t)"
  have "real a < real b * 2 powi 53" using assms(3) by (simp add: powi_nat)
  from expo_less [OF assms(1,2) this] have t: "t \<le> 0" by (simp add: t_def)
  then have ts: "t = - int s" "nat t = 0" "nat (- t) = s" by (simp_all add: s_def)
  let ?n = "round_even (a * 2 ^ s) b"
  have "a * 2 ^ s \<le> 2 ^ 53 * 2 ^ s * b"
  proof -
    from assms(3) have "real a < real (b * 2 ^ 53)" by simp
    then have "a < b * 2 ^ 53" by (simp only: of_nat_less_iff)
    then have "a * 2 ^ s \<le> b * 2 ^ 53 * 2 ^ s" by simp
    then show ?thesis by (simp add: ac_simps)
  qed
  from round_even_le [OF assms(2) this] have n: "?n \<le> 2 ^ 53 * 2 ^ s" .
  have no: "\<not> (0 \<le> t \<and> 2 ^ 1024 \<le> ?n * 2 ^ nat t)"
  proof
    assume "0 \<le> t \<and> 2 ^ 1024 \<le> ?n * 2 ^ nat t"
    with t have "t = 0" "2 ^ 1024 \<le> ?n" by simp_all
    with n ts have "(2::nat) ^ 1024 \<le> 2 ^ 53" by simp
    then show False by simp
  qed
  have r: "round_ratio a b = Some (?n, - int s)"
    using assms(1) no unfolding round_ratio_def Let_def t_def [symmetric]
    by (simp add: ts)
  have "s = 1074 \<or> real b * 2 powi (52 - int s) \<le> real a"
  proof (cases "expo a b - 52 \<le> - 1074")
    case True
    then have "t = - 1074" by (simp add: t_def)
    then show ?thesis by (simp add: s_def)
  next
    case False
    then have "t = expo a b - 52" by (simp add: t_def)
    then have "52 - int s = expo a b" by (simp add: ts)
    with expo_lower [OF assms(1,2)] show ?thesis by simp
  qed
  with r show ?thesis by blast
qed

lemma dyadic_neg: "dyadic (n, - int s) = real n / 2 ^ s"
  by simp

lemma floor_dyadic_neg: "floor_dyadic (n * 2 ^ s, - int s) = int n"
  by (cases "s = 0") simp_all


lemma round_int_exact:
  assumes "\<bar>m\<bar> < 2 ^ 53"
  shows "round_int m = Fin m"
proof (cases "m = 0")
  case True
  then show ?thesis by (simp add: round_int_def round_ratio_def)
next
  case False
  define a where "a = nat \<bar>m\<bar>"
  from False have a: "0 < a" by (simp add: a_def)
  from assms have "real a < 2 ^ 53" by (simp add: a_def)
  then have "real a < real 1 * 2 ^ 53" by simp
  from round_ratio_small [OF a _ this] obtain s
    where "round_ratio a 1 = Some (round_even (a * 2 ^ s) 1, - int s)" by auto
  moreover have "round_even (a * 2 ^ s) 1 = a * 2 ^ s" using round_even_exact [of 1 "a * 2 ^ s"] by simp
  ultimately have "round_ratio a 1 = Some (a * 2 ^ s, - int s)" by simp
  then show ?thesis
    unfolding round_int_def a_def [symmetric]
    by (simp add: floor_dyadic_neg a_def del: floor_dyadic.simps)
qed



lemma random_product_bound:
  assumes "m < 2 ^ j"
  shows "\<exists>x. round_ratio (m * 100000000000) (2 ^ j) = Some x \<and> 0 \<le> dyadic x \<and>
    dyadic x \<le> 100000000000"
proof (cases "m = 0")
  case True
  then show ?thesis by (simp add: round_ratio_def)
next
  case False
  let ?a = "m * 100000000000" and ?b = "(2::nat) ^ j"
  from False have a: "0 < ?a" by simp
  have b: "0 < ?b" by simp
  have "real ?a < real ?b * 2 ^ 53"
  proof -
    from assms have "real m < real (2 ^ j)" by (simp only: of_nat_less_iff)
    then have "real m * 100000000000 < real (2 ^ j) * 100000000000" by simp
    also have "\<dots> \<le> real (2 ^ j) * 2 ^ 53" by (intro mult_left_mono) simp_all
    finally show ?thesis by simp
  qed
  from round_ratio_small [OF a b this] obtain s
    where r: "round_ratio ?a ?b = Some (round_even (?a * 2 ^ s) ?b, - int s)" by blast
  let ?N = "round_even (?a * 2 ^ s) ?b"
  from assms have "m \<le> 2 ^ j" by simp
  then have "?a * 2 ^ s \<le> 100000000000 * 2 ^ s * ?b" by (simp add: ac_simps)
  from round_even_le [OF b this] have "?N \<le> 100000000000 * 2 ^ s" .
  then have "real ?N \<le> real (100000000000 * 2 ^ s)" by (simp only: of_nat_le_iff)
  then have "real ?N / 2 ^ s \<le> 100000000000" by (simp add: field_simps)
  with r show ?thesis by (simp add: dyadic_neg del: dyadic.simps)
qed

text \<open>
  \<open>round_ratio\<close> rounds to nearest: its value is a multiple of the spacing \<open>2 ^ t\<close> at the
  exponent of \<open>a / b\<close>, at most half a spacing away from \<open>a / b\<close>, with a significand of at
  most \<open>2 ^ 53\<close> that is at least \<open>2 ^ 52\<close> unless the value is subnormal; a tie goes to the
  even significand.
\<close>

lemma expo_upper:
  assumes "0 < a" "0 < b"
  shows "real a < real b * 2 powi (expo a b + 1)"
proof -
  define d where "d = int (bits a) - int (bits b)"
  show ?thesis
  proof (cases "b * 2 ^ nat d \<le> a * 2 ^ nat (- d)")
    case True
    then have e: "expo a b = d" by (simp add: expo_def d_def Let_def)
    have "real a < 2 powi int (bits a)" by (rule bits_powi(2) [OF assms(1)])
    also have "\<dots> = 2 powi (int (bits b) - 1) * 2 powi (d + 1)"
    proof -
      have x: "int (bits a) = (int (bits b) - 1) + (d + 1)" by (simp add: d_def)
      show ?thesis by (subst x, rule power_int_add) simp
    qed
    also have "\<dots> \<le> real b * 2 powi (d + 1)"
      using bits_powi(1) [OF assms(2)] by (intro mult_right_mono) simp_all
    finally show ?thesis by (simp add: e)
  next
    case False
    then have e: "expo a b = d - 1" by (simp add: expo_def d_def Let_def)
    from False have "a * 2 ^ nat (- d) < b * 2 ^ nat d" by simp
    then have "real (a * 2 ^ nat (- d)) < real (b * 2 ^ nat d)" by (simp only: of_nat_less_iff)
    then have r: "real a * 2 ^ nat (- d) < real b * 2 ^ nat d" by simp
    show ?thesis
    proof (cases "0 \<le> d")
      case True
      with r show ?thesis by (simp add: e powi_nat)
    next
      case False
      with r show ?thesis by (simp add: e powi_neg field_simps)
    qed
  qed
qed

lemma dyadic_powi: "dyadic (n, t) = real n * 2 powi t"
  by (simp add: powi_nat powi_neg)

lemma round_ratio_nearest:
  assumes "0 < a" "0 < b" "round_ratio a b = Some (n, t)"
  shows "\<bar>dyadic (n, t) - real a / real b\<bar> \<le> 2 powi t / 2"
    and "n \<le> 2 ^ 53" and "t = - 1074 \<or> 2 ^ 52 \<le> n"
    and "t = max (expo a b - 52) (- 1074)"
proof -
  define T where "T = max (expo a b - 52) (- 1074)"
  define num den where "num = a * 2 ^ nat (- T)" and "den = b * 2 ^ nat T"
  have "round_ratio a b =
      (if 0 \<le> T \<and> 2 ^ 1024 \<le> round_even num den * 2 ^ nat T then None
       else Some (round_even num den, T))"
    using assms(1) unfolding round_ratio_def Let_def T_def num_def den_def by simp
  with assms(3)
  have "(if 0 \<le> T \<and> 2 ^ 1024 \<le> round_even num den * 2 ^ nat T then None
         else Some (round_even num den, T)) = Some (n, t)"
    by simp
  then have t: "t = T" and n: "n = round_even num den" by (simp_all split: if_splits)
  show "t = max (expo a b - 52) (- 1074)" by (simp add: t T_def)
  from assms(2) have den: "0 < den" by (simp add: den_def)
  have q: "real num / real den = real a / real b / 2 powi T"
  proof (cases "0 \<le> T")
    case True
    then show ?thesis by (simp add: num_def den_def powi_nat)
  next
    case False
    then show ?thesis by (simp add: num_def den_def powi_neg)
  qed
  have p: "(0::real) < 2 powi T" by simp
  have "\<bar>real n - real a / real b / 2 powi T\<bar> \<le> 1 / 2"
    using round_even_error [OF den, of num] by (simp add: n q)
  then have e1: "\<bar>real n - real a / real b / 2 powi T\<bar> * 2 powi T \<le> 1 / 2 * 2 powi T"
    by (intro mult_right_mono) simp_all
  have e2: "\<bar>real n - real a / real b / 2 powi T\<bar> * 2 powi T =
      \<bar>real n * 2 powi T - real a / real b\<bar>"
  proof -
    have "\<bar>real n - real a / real b / 2 powi T\<bar> * 2 powi T =
        \<bar>(real n - real a / real b / 2 powi T) * 2 powi T\<bar>"
      by (simp add: abs_mult)
    also have "(real n - real a / real b / 2 powi T) * 2 powi T =
        real n * 2 powi T - real a / real b"
      by (simp add: algebra_simps)
    finally show ?thesis .
  qed
  have "\<bar>real n * 2 powi T - real a / real b\<bar> \<le> 1 / 2 * 2 powi T"
    using e1 unfolding e2 .
  then show "\<bar>dyadic (n, t) - real a / real b\<bar> \<le> 2 powi t / 2"
    by (simp add: dyadic_powi t del: dyadic.simps)
  have up: "real num < real den * 2 powi (expo a b + 1 - T)"
  proof -
    have "real a / real b < 2 powi (expo a b + 1)"
      using expo_upper [OF assms(1,2)] assms(2) by (simp add: field_simps)
    then have "real a / real b / 2 powi T < 2 powi (expo a b + 1) / 2 powi T"
      by (intro divide_strict_right_mono) simp_all
    also have "\<dots> = 2 powi (expo a b + 1 - T)" by (simp add: power_int_diff)
    finally have "real num / real den < 2 powi (expo a b + 1 - T)" by (simp only: q)
    with den show ?thesis by (simp add: field_simps)
  qed
  have "expo a b + 1 - T \<le> 53" by (simp add: T_def)
  then have "(2::real) powi (expo a b + 1 - T) \<le> 2 powi 53"
    by (intro power_int_increasing) simp_all
  then have "real den * 2 powi (expo a b + 1 - T) \<le> real den * 2 ^ 53"
    by (intro mult_left_mono) (simp_all add: powi_nat)
  with up have "real num < real (2 ^ 53 * den)" by simp
  then have "num < 2 ^ 53 * den" by (simp only: of_nat_less_iff)
  then have "num \<le> 2 ^ 53 * den" by simp
  from round_even_le [OF den this] show "n \<le> 2 ^ 53" by (simp add: n)
  show "t = - 1074 \<or> 2 ^ 52 \<le> n"
  proof (cases "expo a b - 52 \<le> - 1074")
    case True
    then show ?thesis by (simp add: t T_def)
  next
    case False
    then have e: "expo a b = T + 52" by (simp add: T_def)
    have "2 powi (T + 52) \<le> real a / real b"
      using expo_lower [OF assms(1,2)] assms(2) by (simp add: e field_simps)
    then have "2 powi (T + 52) / 2 powi T \<le> real a / real b / 2 powi T"
      by (intro divide_right_mono) simp_all
    moreover have "(2::real) powi (T + 52) / 2 powi T = 2 ^ 52"
      by (simp add: power_int_add powi_nat)
    ultimately have "2 ^ 52 \<le> real num / real den" by (simp only: q)
    with den have "real (2 ^ 52 * den) \<le> real num" by (simp add: field_simps)
    then have "2 ^ 52 * den \<le> num" by (simp only: of_nat_le_iff)
    from round_even_ge [OF den this] show ?thesis by (simp add: n)
  qed
qed

lemma round_even_tie:
  assumes "2 * (num mod den) = den"
  shows "even (round_even num den)"
  using assms by (auto simp: round_even_def Let_def)

subsection \<open>The image of a new post\<close>

lemma POST_upload_fails:
  assumes "f_featuredImage body = Some (EFile f)"
    and "\<not> upload_ok e (create_key (math_random e) f) f \<or>
         download_url e (create_key (math_random e) f) = None"
  shows "fst (POST e body st) \<noteq> Created"
  using assms by (auto simp: POST_def upload_def split: option.splits)

text \<open>
  C6. In Create with a file the upload comes before the post is saved: when the upload or
  the request for its URL fails, the answer is not Created and the collection of posts is
  what it was (the answer is the general failure once validation and authorization have
  passed); and whenever a post with a file is created, the upload had succeeded and the
  object is in the asset store.
\<close>

theorem failed_upload_stores_no_post:
  "(f_featuredImage body = Some (EFile f) \<and>
    (\<not> upload_ok e (create_key (math_random e) f) f \<or>
     download_url e (create_key (math_random e) f) = None) \<longrightarrow>
      fst (POST e body st) \<noteq> Created \<and> posts (snd (POST e body st)) = posts st \<and>
      (required_present body \<and> session e = Some u \<and> u \<in> set (users st) \<and>
       fault_of e Conn = None \<and> fault_of e UserFindOne = None \<longrightarrow>
         fst (POST e body st) = GeneralFailure)) \<and>
   (f_featuredImage body = Some (EFile f) \<and> POST e body st = (Created, st') \<longrightarrow>
      upload_ok e (create_key (math_random e) f) f \<and>
      (create_key (math_random e) f, f) \<in> set (assets st'))"
proof (intro conjI impI)
  assume a: "f_featuredImage body = Some (EFile f) \<and>
    (\<not> upload_ok e (create_key (math_random e) f) f \<or>
     download_url e (create_key (math_random e) f) = None)"
  then show n: "fst (POST e body st) \<noteq> Created"
    using POST_upload_fails [of body f e st] by blast
  then show "posts (snd (POST e body st)) = posts st"
    by (rule POST_not_Created)
  assume "required_present body \<and> session e = Some u \<and> u \<in> set (users st) \<and>
       fault_of e Conn = None \<and> fault_of e UserFindOne = None"
  with a show "fst (POST e body st) = GeneralFailure"
    by (auto simp: POST_def upload_def user_exists_def)
next
  assume a: "f_featuredImage body = Some (EFile f) \<and> POST e body st = (Created, st')"
  then show "upload_ok e (create_key (math_random e) f) f"
    by (auto simp: POST_def upload_def split: if_splits option.splits)
  from a POST_Created [of e body st st']
  show "(create_key (math_random e) f, f) \<in> set (assets st')"
    by auto
qed

lemma ex_POST_png_Created: "fst (POST ex_env ex_form_png ex_store) = Created"
  by (simp add: ex_defs handler_defs js_def)

theorem failed_upload_stores_no_post_witness:
  "f_featuredImage ex_form_png = Some (EFile ex_png) \<and>
   \<not> upload_ok ex_env_noupload (create_key (math_random ex_env_noupload) ex_png) ex_png \<and>
   fst (POST ex_env_noupload ex_form_png ex_store) = GeneralFailure \<and>
   posts (snd (POST ex_env_noupload ex_form_png ex_store)) = posts ex_store \<and>
   POST ex_env ex_form_png ex_store = (Created, snd (POST ex_env ex_form_png ex_store)) \<and>
   (create_key (math_random ex_env) ex_png, ex_png)
     \<in> set (assets (snd (POST ex_env ex_form_png ex_store)))"
proof -
  have n: "\<not> upload_ok ex_env_noupload (create_key (math_random ex_env_noupload) ex_png) ex_png"
    by (simp add: ex_env_noupload_def)
  have c: "POST ex_env ex_form_png ex_store = (Created, snd (POST ex_env ex_form_png ex_store))"
    using ex_POST_png_Created by (rule fst_eq_pair)
  note a = failed_upload_stores_no_post [where body = ex_form_png and f = ex_png
      and e = ex_env_noupload and st = ex_store and u = "js ''u1''"
      and st' = "snd (POST ex_env ex_form_png ex_store)"]
  note b = failed_upload_stores_no_post [where body = ex_form_png and f = ex_png
      and e = ex_env and st = ex_store and u = "js ''u1''"
      and st' = "snd (POST ex_env ex_form_png ex_store)"]
  from a n have 1: "fst (POST ex_env_noupload ex_form_png ex_store) = GeneralFailure \<and>
      posts (snd (POST ex_env_noupload ex_form_png ex_store)) = posts ex_store"
    using ex_ids(6) ex_required(5) ex_sessions(5,6) ex_no_fault(4) by blast
  from b c have 2: "(create_key (math_random ex_env) ex_png, ex_png)
      \<in> set (assets (snd (POST ex_env ex_form_png ex_store)))"
    using ex_ids(6) by blast
  from n c 1 2 ex_ids(6) show ?thesis by blast
qed

lemma rounded_bound:
  assumes "0 \<le> v" "v \<le> (100000000000::real)"
  shows "nat \<lfloor>v + 1 / 2\<rfloor> \<le> 10 ^ 11"
proof -
  have "v + 1 / 2 < 100000000001" using assms by simp
  then have "\<lfloor>v + 1 / 2\<rfloor> < 100000000001" by (simp add: floor_less_iff)
  then have "\<lfloor>v + 1 / 2\<rfloor> \<le> 100000000000" by linarith
  then have "nat \<lfloor>v + 1 / 2\<rfloor> \<le> nat 100000000000" by (rule nat_mono)
  also have "nat 100000000000 = 10 ^ 11" by simp
  finally show ?thesis .
qed

lemma decimal_eleven:
  "length (decimal n) = 11 \<longleftrightarrow> 10 ^ 10 \<le> n \<and> n < 10 ^ 11"
proof
  assume l: "length (decimal n) = 11"
  have "10 ^ 10 \<le> n"
  proof (rule ccontr)
    assume "\<not> 10 ^ 10 \<le> n"
    then have "n < 10 ^ 10" by simp
    from decimal_length_le [OF _ this] l show False by simp
  qed
  moreover have "n < 10 ^ 11"
  proof (rule ccontr)
    assume "\<not> n < 10 ^ 11"
    then have "10 ^ 11 \<le> n" by simp
    from decimal_length_gt [OF this] l show False by simp
  qed
  ultimately show "10 ^ 10 \<le> n \<and> n < 10 ^ 11" by simp
next
  assume a: "10 ^ 10 \<le> n \<and> n < 10 ^ 11"
  then have "10 < length (decimal n)" using decimal_length_gt [of 10 n] by simp
  moreover from a have "length (decimal n) \<le> 11" using decimal_length_le [of 11 n] by simp
  ultimately show "length (decimal n) = 11" by simp
qed

lemma ex_random_times:
  "random_times (1, 5) = Some (6553600000000000, - 21)"
  "random_times (45104946384, 53) = Some (8603085781860352, - 34)"
  "random_times (9007199254695956, 53) = Some (6553599999967232, - 16)"
  by (simp_all add: random_times_def round_ratio_def expo_def round_even_def bits.simps Let_def)

lemma ex_rounded:
  "nat \<lfloor>dyadic (6553600000000000, - 21) + 1 / 2\<rfloor> = 3125000000"
  "nat \<lfloor>dyadic (8603085781860352, - 34) + 1 / 2\<rfloor> = 500766"
  "nat \<lfloor>dyadic (6553599999967232, - 16) + 1 / 2\<rfloor> = 100000000000"
  by simp_all

lemma ex_dyadic_sign:
  "\<not> dyadic (6553600000000000, - 21) < 0" "\<not> dyadic (8603085781860352, - 34) < 0"
  "\<not> dyadic (6553599999967232, - 16) < 0"
  by simp_all

lemma ex_decimal:
  "decimal 3125000000 = js ''3125000000''" "decimal 500766 = js ''500766''"
  "decimal 100000000000 = js ''100000000000''"
  by (simp_all add: decimal.simps digit_of_def js_def)

lemma ex_keys:
  "create_key (1, 5) ex_png = js ''the-educative/blog/post-3125000000.png''"
  "create_key (45104946384, 53) ex_png = js ''the-educative/blog/post-500766.png''"
  "create_key (9007199254695956, 53) ex_png = js ''the-educative/blog/post-100000000000.png''"
proof -
  have e: "ext_of ex_png = js ''png''"
    by (simp add: ext_of_def ex_png_def str_def js_def slash_def)
  show "create_key (1, 5) ex_png = js ''the-educative/blog/post-3125000000.png''"
    unfolding create_key_def toFixed0_def ex_random_times option.case if_not_P [OF ex_dyadic_sign(1)]
      ex_rounded ex_decimal e by (simp add: js_def)
  show "create_key (45104946384, 53) ex_png = js ''the-educative/blog/post-500766.png''"
    unfolding create_key_def toFixed0_def ex_random_times option.case if_not_P [OF ex_dyadic_sign(2)]
      ex_rounded ex_decimal e by (simp add: js_def)
  show "create_key (9007199254695956, 53) ex_png =
      js ''the-educative/blog/post-100000000000.png''"
    unfolding create_key_def toFixed0_def ex_random_times option.case if_not_P [OF ex_dyadic_sign(3)]
      ex_rounded ex_decimal e by (simp add: js_def)
qed

text \<open>
  C7, as stated, at \<^verbatim>\<open>Math.random() = 1 / 2 ^ 5\<close>: the product is the binary64 value
  \<open>6553600000000000 / 2 ^ 21 = 3125000000\<close>, and the object is stored under a key whose
  integer has ten digits.
\<close>

theorem create_key_ten_digits_counterexample:
  "math_random ex_env = (1, 5) \<and>
   random_times (math_random ex_env) = Some (6553600000000000, - 21) \<and>
   assets (snd (POST ex_env ex_form_png ex_store)) =
     [(js ''the-educative/blog/post-3125000000.png'', ex_png)] \<and>
   length (toFixed0 (dyadic (6553600000000000, - 21))) = 10"
proof -
  have m: "math_random ex_env = (1, 5)" by (simp add: ex_env_def)
  have u: "upload_ok ex_env k ex_png" for k by (simp add: ex_env_def)
  have a: "assets (snd (POST ex_env ex_form_png ex_store)) =
      [(create_key (math_random ex_env) ex_png, ex_png)]"
    by (simp add: ex_defs handler_defs js_def)
  have "toFixed0 (dyadic (6553600000000000, - 21)) = js ''3125000000''"
    unfolding toFixed0_def if_not_P [OF ex_dyadic_sign(1)] ex_rounded ex_decimal ..
  then have l: "length (toFixed0 (dyadic (6553600000000000, - 21))) = 10"
    by (simp add: js_def)
  have r: "random_times (math_random ex_env) = Some (6553600000000000, - 21)"
    unfolding m by (rule ex_random_times(1))
  from a have "assets (snd (POST ex_env ex_form_png ex_store)) =
      [(js ''the-educative/blog/post-3125000000.png'', ex_png)]"
    by (simp only: m ex_keys(1))
  with m r l show ?thesis by blast
qed

text \<open>
  C7, amended. In Create the featured image starts as the empty string. With a file the
  object key is \<^verbatim>\<open>the-educative/blog/post-<n>.<ext>\<close>, where \<open>ext\<close> is the last piece of
  the file's media type split at \<^verbatim>\<open>/\<close> and \<open>n\<close> is the binary64 product
  \<^verbatim>\<open>Math.random() * 100000000000\<close> rounded to the nearest integer and written in decimal
  without padding. For every value \<open>m / 2 ^ j < 1\<close> of \<^verbatim>\<open>Math.random()\<close> the product is finite
  and \<open>0 \<le> n \<le> 10 ^ 11\<close>, so \<open>n\<close> has between one and twelve digits, and eleven exactly when
  \<open>10 ^ 10 \<le> n < 10 ^ 11\<close>. The post that is created has the URL returned by the asset store
  as its featured image, and the empty string when the request carries no file.
\<close>

theorem create_image_key:
  "featuredImage (newPost e body) = [] \<and>
   (fst r < 2 ^ snd r \<longrightarrow>
      (\<exists>x n. random_times r = Some x \<and> n = nat \<lfloor>dyadic x + 1 / 2\<rfloor> \<and> n \<le> 10 ^ 11 \<and>
         create_key r f =
           js ''the-educative/blog/post-'' @ decimal n @ js ''.'' @ last (split slash (file_type f)) \<and>
         1 \<le> length (decimal n) \<and> length (decimal n) \<le> 12 \<and>
         (length (decimal n) = 11 \<longleftrightarrow> 10 ^ 10 \<le> n \<and> n < 10 ^ 11))) \<and>
   (POST e body st = (Created, st') \<longrightarrow>
      (\<exists>p. posts st' = posts st @ [p] \<and>
         (case f_featuredImage body of
            Some (EFile f) \<Rightarrow>
              download_url e (create_key (math_random e) f) = Some (featuredImage p) \<and>
              (create_key (math_random e) f, f) \<in> set (assets st')
          | _ \<Rightarrow> featuredImage p = [])))"
proof (intro conjI impI)
  show "featuredImage (newPost e body) = []" by (simp add: newPost_def)
next
  assume r: "fst r < 2 ^ snd r"
  from random_product_bound [OF r] obtain x
    where x: "random_times r = Some x" "0 \<le> dyadic x" "dyadic x \<le> 100000000000"
    by (auto simp: random_times_def)
  define n where "n = nat \<lfloor>dyadic x + 1 / 2\<rfloor>"
  from x(2,3) have b: "n \<le> 10 ^ 11" unfolding n_def by (rule rounded_bound)
  then have "n < 10 ^ 12" by simp
  then have l: "length (decimal n) \<le> 12" by (intro decimal_length_le) simp_all
  from x(1,2) have k: "create_key r f =
      js ''the-educative/blog/post-'' @ decimal n @ js ''.'' @ last (split slash (file_type f))"
    by (simp add: create_key_def toFixed0_def ext_of_def n_def)
  from x(1) b l k decimal_length_ge1 [of n] decimal_eleven [of n] n_def
  show "\<exists>x n. random_times r = Some x \<and> n = nat \<lfloor>dyadic x + 1 / 2\<rfloor> \<and> n \<le> 10 ^ 11 \<and>
         create_key r f =
           js ''the-educative/blog/post-'' @ decimal n @ js ''.'' @ last (split slash (file_type f)) \<and>
         1 \<le> length (decimal n) \<and> length (decimal n) \<le> 12 \<and>
         (length (decimal n) = 11 \<longleftrightarrow> 10 ^ 10 \<le> n \<and> n < 10 ^ 11)"
    by blast
next
  assume "POST e body st = (Created, st')"
  from POST_Created [OF this] obtain img where
    p: "posts st' = posts st @ [(newPost e body)\<lparr>featuredImage := img\<rparr>]"
    and g: "case f_featuredImage body of
          Some (EFile f) \<Rightarrow>
            download_url e (create_key (math_random e) f) = Some img \<and>
            (create_key (math_random e) f, f) \<in> set (assets st')
        | _ \<Rightarrow> img = [] \<and> assets st' = assets st"
    by blast
  have "case f_featuredImage body of
            Some (EFile f) \<Rightarrow>
              download_url e (create_key (math_random e) f) =
                Some (featuredImage ((newPost e body)\<lparr>featuredImage := img\<rparr>)) \<and>
              (create_key (math_random e) f, f) \<in> set (assets st')
          | _ \<Rightarrow> featuredImage ((newPost e body)\<lparr>featuredImage := img\<rparr>) = []"
    using g by (auto split: option.splits entry.splits)
  with p show "\<exists>p. posts st' = posts st @ [p] \<and>
         (case f_featuredImage body of
            Some (EFile f) \<Rightarrow>
              download_url e (create_key (math_random e) f) = Some (featuredImage p) \<and>
              (create_key (math_random e) f, f) \<in> set (assets st')
          | _ \<Rightarrow> featuredImage p = [])"
    by blast
qed

theorem create_image_key_witness:
  "fst (9007199254695956::nat, 53::nat) < 2 ^ snd (9007199254695956::nat, 53::nat) \<and>
   (\<exists>x n. random_times (9007199254695956, 53) = Some x \<and> n = nat \<lfloor>dyadic x + 1 / 2\<rfloor> \<and>
      n = 10 ^ 11 \<and> length (decimal n) = 12 \<and>
      create_key (9007199254695956, 53) ex_png =
        js ''the-educative/blog/post-'' @ decimal n @ js ''.'' @
          last (split slash (file_type ex_png))) \<and>
   create_key (9007199254695956, 53) ex_png = js ''the-educative/blog/post-100000000000.png'' \<and>
   create_key (45104946384, 53) ex_png = js ''the-educative/blog/post-500766.png'' \<and>
   POST ex_env ex_form_png ex_store = (Created, snd (POST ex_env ex_form_png ex_store)) \<and>
   (\<exists>p. posts (snd (POST ex_env ex_form_png ex_store)) = posts ex_store @ [p] \<and>
      download_url ex_env (create_key (math_random ex_env) ex_png) = Some (featuredImage p))"
proof -
  have c: "POST ex_env ex_form_png ex_store = (Created, snd (POST ex_env ex_form_png ex_store))"
    using ex_POST_png_Created by (rule fst_eq_pair)
  have r: "fst (9007199254695956::nat, 53::nat) < 2 ^ snd (9007199254695956::nat, 53::nat)"
    by simp
  note a = create_image_key [where e = ex_env and body = ex_form_png
      and r = "(9007199254695956, 53)" and f = ex_png and st = ex_store
      and st' = "snd (POST ex_env ex_form_png ex_store)"]
  from a r obtain x n where x: "random_times (9007199254695956, 53) = Some x"
    and n: "n = nat \<lfloor>dyadic x + 1 / 2\<rfloor>"
    and k: "create_key (9007199254695956, 53) ex_png =
        js ''the-educative/blog/post-'' @ decimal n @ js ''.'' @
          last (split slash (file_type ex_png))"
    by blast
  from x have "x = (6553599999967232, - 16)" by (simp add: ex_random_times)
  with n have v: "n = 10 ^ 11" by (simp only: ex_rounded) simp
  then have "decimal n = js ''100000000000''" using ex_decimal(3) by simp
  then have "length (decimal n) = 12" by (simp add: js_def)
  with x n v k have 1: "\<exists>x n. random_times (9007199254695956, 53) = Some x \<and>
      n = nat \<lfloor>dyadic x + 1 / 2\<rfloor> \<and> n = 10 ^ 11 \<and> length (decimal n) = 12 \<and>
      create_key (9007199254695956, 53) ex_png =
        js ''the-educative/blog/post-'' @ decimal n @ js ''.'' @
          last (split slash (file_type ex_png))"
    by blast
  from a c have "\<exists>p. posts (snd (POST ex_env ex_form_png ex_store)) = posts ex_store @ [p] \<and>
         (case f_featuredImage ex_form_png of
            Some (EFile f) \<Rightarrow>
              download_url ex_env (create_key (math_random ex_env) f) = Some (featuredImage p) \<and>
              (create_key (math_random ex_env) f, f)
                \<in> set (assets (snd (POST ex_env ex_form_png ex_store)))
          | _ \<Rightarrow> featuredImage p = [])"
    by blast
  then have 2: "\<exists>p. posts (snd (POST ex_env ex_form_png ex_store)) = posts ex_store @ [p] \<and>
      download_url ex_env (create_key (math_random ex_env) ex_png) = Some (featuredImage p)"
    by (auto simp: ex_ids(6))
  from r 1 c 2 ex_keys(2,3) show ?thesis by blast
qed

subsection \<open>Pages, order and joins of the listing\<close>



lemma GET_ok:
  assumes "fault_of e Conn = None" "fault_of e PostAggregate = None"
    "fault_of e PostCountDocuments = None"
    "parseInt (or_default pp (js ''1'')) = Fin page"
    "parseInt (or_default lp (js ''6'')) = Fin limit" "1 \<le> page" "1 \<le> limit"
    "limit < 2 ^ 63" "(page - 1) * limit < 2 ^ 53"
  shows "GET e pp lp st =
    Listing (aggregate e st (nat ((page - 1) * limit)) (nat limit))
      (total_pages (countDocuments st) limit)"
proof -
  from assms(6,7) have n: "0 \<le> (page - 1) * limit" by simp
  from assms(6,7) have "(page - 1) * 1 \<le> (page - 1) * limit" by (intro mult_left_mono) simp_all
  with assms(6,9) have "\<bar>page - 1\<bar> < 2 ^ 53" by simp
  then have a: "round_int (page - 1) = Fin (page - 1)" by (rule round_int_exact)
  from n assms(9) have "\<bar>(page - 1) * limit\<bar> < 2 ^ 53" by simp
  then have b: "round_int ((page - 1) * limit) = Fin ((page - 1) * limit)"
    by (rule round_int_exact)
  have "(2::int) ^ 53 \<le> 2 ^ 63" by simp
  with assms(9) have c: "(page - 1) * limit < 2 ^ 63" by linarith
  have s: "js_times (js_minus (Fin page) (Fin 1)) (Fin limit) = Fin ((page - 1) * limit)"
    by (simp only: js_minus.simps js_times.simps a b)
  from n c assms(7,8) have g: "\<not> ((page - 1) * limit < 0 \<or> 2 ^ 63 \<le> (page - 1) * limit \<or>
      limit < 1 \<or> 2 ^ 63 \<le> limit)"
    by simp
  show ?thesis
    unfolding GET_def Let_def assms(1-5) s
    by (simp only: option.case prod.case number.case if_not_P [OF g])
qed

lemma GET_Listing:
  assumes "GET e pp lp st = Listing ps tp"
  shows "\<exists>skip limit. ps = aggregate e st skip limit"
  using assms
  by (auto simp: GET_def Let_def split: option.splits if_splits number.splits prod.splits)

lemma fst_unwind_one: "fst ` set (unwind_one d) = {fst d}"
  by (cases d rule: unwind_one.cases) auto

lemma fst_unwind_stage: "fst ` set (unwind_stage ds) = fst ` set ds"
  by (induction ds) (auto simp: unwind_stage_def fst_unwind_one image_Un)

lemma sorted_unwind_one:
  "sorted_wrt (\<lambda>a b. k (fst b) \<le> (k (fst a) :: int)) (unwind_one d)"
  by (cases d rule: unwind_one.cases) (auto simp: sorted_wrt_map)

lemma sorted_unwind:
  "sorted_wrt (\<lambda>a b. k (fst b) \<le> (k (fst a) :: int)) ds \<Longrightarrow>
   sorted_wrt (\<lambda>a b. k (fst b) \<le> k (fst a)) (unwind_stage ds)"
proof (induction ds)
  case Nil
  show ?case by (simp add: unwind_stage_def)
next
  case (Cons d ds)
  have u: "unwind_stage (d # ds) = unwind_one d @ unwind_stage ds"
    by (simp add: unwind_stage_def)
  have "\<forall>x\<in>set (unwind_one d). \<forall>y\<in>set (unwind_stage ds). k (fst y) \<le> k (fst x)"
  proof (intro ballI)
    fix x y assume "x \<in> set (unwind_one d)" "y \<in> set (unwind_stage ds)"
    then have "fst x = fst d" and "fst y \<in> fst ` set ds"
      using fst_unwind_one [of d] fst_unwind_stage [of ds] by auto
    with Cons.prems show "k (fst y) \<le> k (fst x)" by auto
  qed
  with Cons sorted_unwind_one [of k d] show ?case
    unfolding u by (simp add: sorted_wrt_append)
qed

lemma fst_lookup_stage [simp]: "map fst (lookup_stage r c ds) = ds"
  by (simp add: lookup_stage_def comp_def)

lemma sorted_lookup:
  "sorted_wrt (\<lambda>a b. k b \<le> (k a :: int)) ds \<Longrightarrow>
   sorted_wrt (\<lambda>a b. k (fst b) \<le> k (fst a)) (lookup_stage r c ds)"
  by (simp add: lookup_stage_def sorted_wrt_map)

lemma sorted_sort_stage:
  "sorted_wrt (\<lambda>a b. publish_date b \<le> publish_date a) (sort_stage ps)"
proof -
  have "sorted (map (\<lambda>p. - publish_date p) (sort_stage ps))"
    unfolding sort_stage_def by (rule sorted_sort_key)
  then show ?thesis by (simp add: sorted_map)
qed

lemma set_sort_match: "set (sort_stage (match_stage ps)) = {p \<in> set ps. published p}"
  by (simp add: sort_stage_def match_stage_def)

lemma sorted_joined_stage:
  "sorted_wrt (\<lambda>a b. publish_date (source_post b) \<le> publish_date (source_post a)) (joined_stage st)"
proof -
  let ?A = "sort_stage (match_stage (posts st))"
  let ?C = "unwind_stage (lookup_stage refers_category (categories st) ?A)"
  let ?E = "unwind_stage (lookup_stage refers_subcategory (subcategories st) ?C)"
  have "sorted_wrt (\<lambda>a b. publish_date (fst b) \<le> publish_date (fst a)) ?C"
    by (intro sorted_unwind sorted_lookup sorted_sort_stage)
  then have "sorted_wrt (\<lambda>a b. publish_date (fst (fst b)) \<le> publish_date (fst (fst a))) ?E"
    by (intro sorted_unwind [where k = "\<lambda>x. publish_date (fst x)"]
        sorted_lookup [where k = "\<lambda>x. publish_date (fst x)"])
  then have "sorted_wrt (\<lambda>a b. publish_date (fst (fst (fst b))) \<le> publish_date (fst (fst (fst a))))
      (lookup_stage refers_tag (tag_docs st) ?E)"
    by (rule sorted_lookup [where k = "\<lambda>x. publish_date (fst (fst x))"])
  then show ?thesis by (simp add: joined_stage_def source_post_def)
qed

lemma set_lookup_stage: "fst ` set (lookup_stage r c ds) = set ds"
  by (metis fst_lookup_stage set_map)

lemma source_joined_stage:
  "source_post ` set (joined_stage st) = {p \<in> set (posts st). published p}"
proof -
  let ?A = "sort_stage (match_stage (posts st))"
  let ?B = "lookup_stage refers_category (categories st) ?A"
  let ?C = "unwind_stage ?B"
  let ?D = "lookup_stage refers_subcategory (subcategories st) ?C"
  let ?E = "unwind_stage ?D"
  let ?F = "lookup_stage refers_tag (tag_docs st) ?E"
  have "source_post ` set ?F = fst ` fst ` fst ` set ?F"
    by (simp add: image_image source_post_def)
  also have "\<dots> = fst ` fst ` set ?E" by (simp only: set_lookup_stage)
  also have "\<dots> = fst ` fst ` set ?D" by (simp only: fst_unwind_stage)
  also have "\<dots> = fst ` set ?C" by (simp only: set_lookup_stage)
  also have "\<dots> = fst ` set ?B" by (simp only: fst_unwind_stage)
  also have "\<dots> = set ?A" by (simp only: set_lookup_stage)
  finally show ?thesis by (simp add: set_sort_match joined_stage_def)
qed

lemma digit_cases:
  "d < 10 \<Longrightarrow> d = 0 \<or> d = 1 \<or> d = 2 \<or> d = 3 \<or> d = 4 \<or> d = 5 \<or> d = 6 \<or> d = 7 \<or> d = 8 \<or> d = (9::nat)"
  by arith

lemma digit_char:
  assumes "d < 10"
  shows "is_digit (digit_of d)" and "digit_val (digit_of d) = int d"
  using digit_cases [OF assms] by (auto simp: is_digit_def digit_val_def digit_of_def)

lemma decimal_digits: "\<forall>c\<in>set (decimal n). is_digit c"
proof (induction n rule: decimal.induct)
  case (1 n)
  show ?case
  proof (cases "n < 10")
    case True
    then show ?thesis by (subst decimal.simps) (simp add: digit_char)
  next
    case False
    with 1 show ?thesis by (subst decimal.simps) (simp add: digit_char)
  qed
qed

lemma digits_val_snoc: "digits_val (ds @ [d]) = 10 * digits_val ds + digit_val d"
  by (simp add: digits_val_def)

lemma digits_val_decimal: "digits_val (decimal n) = int n"
proof (induction n rule: decimal.induct)
  case (1 n)
  show ?case
  proof (cases "n < 10")
    case True
    then show ?thesis by (subst decimal.simps) (simp add: digit_char digits_val_def)
  next
    case False
    with 1 have "digits_val (decimal (n div 10)) = int (n div 10)" by simp
    moreover have "10 * int (n div 10) + int (n mod 10) = int n"
      by (simp add: zdiv_int zmod_int)
    ultimately show ?thesis using False
      by (subst decimal.simps) (simp add: digits_val_snoc digit_char)
  qed
qed

lemma decimal_not_Nil: "decimal n \<noteq> []"
  by (subst decimal.simps) simp

lemma hd_decimal: "\<exists>c cs. decimal n = c # cs \<and> is_digit c"
  using decimal_not_Nil [of n] decimal_digits [of n] by (cases "decimal n") auto

lemma is_digit_plain: "is_digit c \<Longrightarrow> \<not> is_ws c \<and> c \<noteq> 0x2B \<and> c \<noteq> 0x2D"
  by (auto simp: is_digit_def is_ws_def word_le_nat_alt)

lemma integer_of_decimal: "integer_of (decimal n) = Some (int n)"
proof -
  obtain c cs where d: "decimal n = c # cs" and c: "is_digit c"
    using hd_decimal by blast
  from c have p: "\<not> is_ws c" "c \<noteq> 0x2B" "c \<noteq> 0x2D" using is_digit_plain by blast+
  have t: "takeWhile is_digit (decimal n) = decimal n"
    using decimal_digits [of n] by (simp add: takeWhile_eq_all_conv)
  have v: "digits_val (c # cs) = int n" using digits_val_decimal [of n] d by simp
  have "integer_of (c # cs) = Some (digits_val (c # cs))"
    using p t d by (simp add: integer_of_def Let_def)
  with d v show ?thesis by simp
qed

lemma parseInt_Fin:
  assumes "integer_of s = Some m" "\<bar>m\<bar> < 2 ^ 53"
  shows "parseInt s = Fin m"
  using assms by (simp add: parseInt_def round_int_exact)

lemma nth_in_page:
  assumes "i < length xs" "0 < n"
  shows "xs ! i \<in> set (take n (drop (i div n * n) xs))"
proof -
  let ?k = "i div n * n"
  have k: "?k + i mod n = i" by simp
  then have le: "?k \<le> i" by linarith
  have m: "i mod n < n" using assms(2) by simp
  have "i mod n < length xs - ?k" using assms(1) k by linarith
  with m have "i mod n < length (take n (drop ?k xs))" by simp
  then have "take n (drop ?k xs) ! (i mod n) \<in> set (take n (drop ?k xs))" by (rule nth_mem)
  moreover have "take n (drop ?k xs) ! (i mod n) = xs ! i"
  proof -
    from le assms(1) have "?k \<le> length xs" by linarith
    then have "drop ?k xs ! (i mod n) = xs ! (?k + i mod n)" by (rule nth_drop)
    with m k show ?thesis by simp
  qed
  ultimately show ?thesis by simp
qed

lemma set_unwind_one:
  "set (unwind_one (d, cs)) = (if cs = [] then {(d, None)} else (\<lambda>x. (d, Some x)) ` set cs)"
  by (cases cs) auto

lemma set_unwind_lookup:
  "set (unwind_stage (lookup_stage r coll ds)) =
   (\<Union>d\<in>set ds. set (unwind_one (d, filter (r d) coll)))"
  by (simp add: unwind_stage_def lookup_stage_def comp_def)

lemma unwind_lookup_Some:
  "(q, Some c) \<in> set (unwind_stage (lookup_stage r coll ds)) \<Longrightarrow> r q c \<and> c \<in> set coll"
  by (auto simp: set_unwind_lookup set_unwind_one split: if_splits)

lemma project_source:
  "l_id (project_one e d) = post_id (source_post d)"
  "l_title (project_one e d) = title (source_post d)"
  "l_status (project_one e d) = status (source_post d)"
  "l_category (project_one e d) = map_option taxon_id (snd (fst (fst d)))"
  "l_categoryName (project_one e d) = map_option taxon_name (snd (fst (fst d)))"
  "l_subcategory (project_one e d) = map_option taxon_id (snd (fst d))"
  "l_subcategoryName (project_one e d) = map_option taxon_name (snd (fst d))"
  by (cases d, cases "fst d", cases "fst (fst d)", simp add: source_post_def)+

lemma joined_category:
  assumes "d \<in> set (joined_stage st)" "snd (fst (fst d)) = Some c"
  shows "category (source_post d) = Some (EStr (taxon_id c)) \<and> c \<in> set (categories st)"
proof -
  let ?A = "sort_stage (match_stage (posts st))"
  let ?C = "unwind_stage (lookup_stage refers_category (categories st) ?A)"
  let ?E = "unwind_stage (lookup_stage refers_subcategory (subcategories st) ?C)"
  from assms(1) have "fst d \<in> set ?E"
    using set_lookup_stage [of refers_tag "tag_docs st" ?E] by (auto simp: joined_stage_def)
  then have "fst (fst d) \<in> fst ` set ?E" by simp
  then have "fst (fst d) \<in> set ?C"
    by (simp only: fst_unwind_stage set_lookup_stage)
  with assms(2) have "(source_post d, Some c) \<in> set ?C"
    by (metis prod.collapse source_post_def)
  from unwind_lookup_Some [OF this] show ?thesis by (simp add: refers_category_def)
qed

lemma joined_subcategory:
  assumes "d \<in> set (joined_stage st)" "snd (fst d) = Some c"
  shows "subcategory (source_post d) = Some (EStr (taxon_id c)) \<and> c \<in> set (subcategories st)"
proof -
  let ?A = "sort_stage (match_stage (posts st))"
  let ?C = "unwind_stage (lookup_stage refers_category (categories st) ?A)"
  let ?E = "unwind_stage (lookup_stage refers_subcategory (subcategories st) ?C)"
  from assms(1) have "fst d \<in> set ?E"
    using set_lookup_stage [of refers_tag "tag_docs st" ?E] by (auto simp: joined_stage_def)
  with assms(2) have "(fst (fst d), Some c) \<in> set ?E"
    by (metis prod.collapse)
  from unwind_lookup_Some [OF this] show ?thesis
    by (simp add: refers_subcategory_def source_post_def)
qed

lemma unresolved_joined:
  assumes "d \<in> set (joined_stage st)"
  shows "((\<forall>c\<in>set (categories st). category (source_post d) \<noteq> Some (EStr (taxon_id c))) \<longrightarrow>
            l_category (project_one e d) = None \<and> l_categoryName (project_one e d) = None) \<and>
         ((\<forall>c\<in>set (subcategories st). subcategory (source_post d) \<noteq> Some (EStr (taxon_id c))) \<longrightarrow>
            l_subcategory (project_one e d) = None \<and> l_subcategoryName (project_one e d) = None)"
proof (intro conjI impI)
  assume a: "\<forall>c\<in>set (categories st). category (source_post d) \<noteq> Some (EStr (taxon_id c))"
  have "snd (fst (fst d)) = None"
  proof (cases "snd (fst (fst d))")
    case (Some c)
    from joined_category [OF assms Some] a show ?thesis by blast
  qed simp
  then show "l_category (project_one e d) = None" "l_categoryName (project_one e d) = None"
    by (simp_all add: project_source)
next
  assume a: "\<forall>c\<in>set (subcategories st). subcategory (source_post d) \<noteq> Some (EStr (taxon_id c))"
  have "snd (fst d) = None"
  proof (cases "snd (fst d)")
    case (Some c)
    from joined_subcategory [OF assms Some] a show ?thesis by blast
  qed simp
  then show "l_subcategory (project_one e d) = None" "l_subcategoryName (project_one e d) = None"
    by (simp_all add: project_source)
qed

lemma listed_on_some_page:
  assumes f: "fault_of e Conn = None" "fault_of e PostAggregate = None"
      "fault_of e PostCountDocuments = None"
    and l: "parseInt (or_default lp (js ''6'')) = Fin limit" "1 \<le> limit" "limit < 2 ^ 63"
    and d: "d \<in> set (joined_stage st)"
    and b: "length (joined_stage st) < 2 ^ 53"
  shows "\<exists>n ps tp. 1 \<le> n \<and> GET e (Some (decimal n)) lp st = Listing ps tp \<and>
    project_one e d \<in> set ps"
proof -
  from d obtain i where i: "i < length (joined_stage st)" "joined_stage st ! i = d"
    by (auto simp: in_set_conv_nth)
  define L where "L = nat limit"
  define n where "n = i div L + 1"
  from l(2) have L: "0 < L" "limit = int L" by (simp_all add: L_def)
  have "i div L \<le> i" by simp
  with i(1) b have nb: "n < 2 ^ 53" unfolding n_def by linarith
  then have "int n < int (2 ^ 53)" by (simp only: of_nat_less_iff)
  then have "\<bar>int n\<bar> < 2 ^ 53" by simp
  from parseInt_Fin [OF integer_of_decimal this]
  have pp: "parseInt (or_default (Some (decimal n)) (js ''1'')) = Fin (int n)"
    by (simp add: or_default_def decimal_not_Nil)
  have sk: "(int n - 1) * limit = int (i div L * L)"
    by (simp add: n_def L(2))
  have skn: "nat ((int n - 1) * limit) = i div L * L"
    unfolding sk by (rule nat_int)
  have "i div L * L \<le> i" by simp
  with i(1) b have "i div L * L < 2 ^ 53" by linarith
  then have "int (i div L * L) < int (2 ^ 53)" by (simp only: of_nat_less_iff)
  then have sb: "(int n - 1) * limit < 2 ^ 53" unfolding sk by simp
  have "1 \<le> int n" by (simp add: n_def)
  from GET_ok [OF f pp l(1) this l(2,3) sb]
  have "GET e (Some (decimal n)) lp st =
      Listing (aggregate e st (nat ((int n - 1) * limit)) (nat limit))
        (total_pages (countDocuments st) limit)" .
  moreover have "project_one e d \<in> set (aggregate e st (nat ((int n - 1) * limit)) (nat limit))"
  proof -
    let ?xs = "map (project_one e) (joined_stage st)"
    from i have "i < length ?xs" "?xs ! i = project_one e d" by simp_all
    with nth_in_page [of i ?xs L] L(1)
    have "project_one e d \<in> set (take L (drop (i div L * L) ?xs))" by simp
    then show ?thesis by (simp add: aggregate_def skn L_def)
  qed
  moreover have "1 \<le> n" by (simp add: n_def)
  ultimately show ?thesis by blast
qed

lemma filter_refers_unique:
  "distinct (map taxon_id cs) \<Longrightarrow> length (filter (\<lambda>c. x = Some (EStr (taxon_id c))) cs) \<le> 1"
proof (induction cs)
  case Nil
  show ?case by simp
next
  case (Cons c cs)
  show ?case
  proof (cases "x = Some (EStr (taxon_id c))")
    case True
    with Cons.prems have "filter (\<lambda>c. x = Some (EStr (taxon_id c))) cs = []"
      by (auto simp: filter_empty_conv)
    with True show ?thesis by simp
  next
    case False
    with Cons show ?thesis by simp
  qed
qed

lemma unwind_lookup_fst:
  "\<forall>d\<in>set ds. length (filter (r d) coll) \<le> 1 \<Longrightarrow>
   map fst (unwind_stage (lookup_stage r coll ds)) = ds"
proof (induction ds)
  case Nil
  show ?case by (simp add: unwind_stage_def lookup_stage_def)
next
  case (Cons d ds)
  have u: "unwind_stage (lookup_stage r coll (d # ds)) =
      unwind_one (d, filter (r d) coll) @ unwind_stage (lookup_stage r coll ds)"
    by (simp add: unwind_stage_def lookup_stage_def)
  from Cons.prems have "length (filter (r d) coll) \<le> 1" by simp
  then have "map fst (unwind_one (d, filter (r d) coll)) = [d]"
    by (cases "filter (r d) coll") (auto simp: comp_def)
  with Cons show ?case unfolding u by simp
qed

lemma sources_joined:
  assumes "distinct (map taxon_id (categories st))" "distinct (map taxon_id (subcategories st))"
  shows "map source_post (joined_stage st) = sort_stage (match_stage (posts st))"
proof -
  let ?A = "sort_stage (match_stage (posts st))"
  let ?C = "unwind_stage (lookup_stage refers_category (categories st) ?A)"
  let ?E = "unwind_stage (lookup_stage refers_subcategory (subcategories st) ?C)"
  have c: "map fst ?C = ?A"
    using filter_refers_unique [OF assms(1)]
    by (intro unwind_lookup_fst) (simp add: refers_category_def [abs_def])
  have e: "map fst ?E = ?C"
    using filter_refers_unique [OF assms(2)]
    by (intro unwind_lookup_fst) (simp add: refers_subcategory_def [abs_def])
  have "map source_post (joined_stage st) =
      map (\<lambda>d. fst (fst (fst d))) (lookup_stage refers_tag (tag_docs st) ?E)"
    by (simp only: joined_stage_def source_post_def [abs_def])
  also have "\<dots> = map (\<lambda>x. fst (fst x)) (map fst (lookup_stage refers_tag (tag_docs st) ?E))"
    by (simp only: map_map comp_def)
  also have "\<dots> = map (\<lambda>x. fst (fst x)) ?E" by (simp only: fst_lookup_stage)
  also have "\<dots> = map fst (map fst ?E)" by (simp only: map_map comp_def)
  also have "\<dots> = map fst ?C" by (simp only: e)
  also have "\<dots> = ?A" by (simp only: c)
  finally show ?thesis .
qed

lemma parse_defaults:
  "integer_of (js ''1'') = Some 1" "integer_of (js ''6'') = Some 6"
  "integer_of (js ''2'') = Some 2"
  "integer_of (js ''10000000000000000000'') = Some 10000000000000000000"
  by (simp_all add: integer_of_def js_def is_ws_def is_digit_def digits_val_def digit_val_def)

lemma parse_default_numbers:
  "parseInt (js ''1'') = Fin 1" "parseInt (js ''6'') = Fin 6" "parseInt (js ''2'') = Fin 2"
  by (rule parseInt_Fin, rule parse_defaults, simp)+


lemma or_default_examples:
  "or_default None d = d" "or_default (Some (js ''1'')) d = js ''1''"
  "or_default (Some (js ''2'')) d = js ''2''" "or_default (Some (js ''6'')) d = js ''6''"
  "or_default (Some (js ''10000000000000000000'')) d = js ''10000000000000000000''"
  by (simp_all add: or_default_def js_def)

text \<open>
  Three requests beyond the exact range: \<open>2 ^ 53 + 1\<close> is read as \<open>2 ^ 53\<close>; a limit of
  \<open>10 ^ 309\<close> is read as Infinity, the skip \<open>0 * Infinity\<close> is NaN, and the store rejects
  the pipeline.
\<close>

lemma ex_parse_rounds: "parseInt (js ''9007199254740993'') = Fin 9007199254740992"
  by (simp add: parseInt_def integer_of_def js_def is_ws_def is_digit_def digits_val_def
      digit_val_def round_int_def round_ratio_def expo_def round_even_def bits.simps Let_def)

lemma ex_integer_of_huge:
  "integer_of (js ''1000000000000000000000000000000000000000000000000000000000000000000000000000000000000000000000000000000000000000000000000000000000000000000000000000000000000000000000000000000000000000000000000000000000000000000000000000000000000000000000000000000000000000000000000000000000000000000000000000000000000000000000'') =
   Some (10 ^ 309)"
  by (simp add: integer_of_def js_def is_ws_def is_digit_def digits_val_def digit_val_def)

lemma ex_round_huge: "round_int (10 ^ 309) = PosInf"
  by (simp add: round_int_def round_ratio_def expo_def round_even_def bits.simps Let_def)

lemma ex_GET_infinite_limit:
  "parseInt (js ''1000000000000000000000000000000000000000000000000000000000000000000000000000000000000000000000000000000000000000000000000000000000000000000000000000000000000000000000000000000000000000000000000000000000000000000000000000000000000000000000000000000000000000000000000000000000000000000000000000000000000000000000'') = PosInf"
  "js_times (js_minus (Fin 1) (Fin 1)) PosInf = NaN"
  "GET ex_env None (Some (js ''1000000000000000000000000000000000000000000000000000000000000000000000000000000000000000000000000000000000000000000000000000000000000000000000000000000000000000000000000000000000000000000000000000000000000000000000000000000000000000000000000000000000000000000000000000000000000000000000000000000000000000000000'')) ex_store = ListFailure"
proof -
  have d: "or_default (Some (js ''1000000000000000000000000000000000000000000000000000000000000000000000000000000000000000000000000000000000000000000000000000000000000000000000000000000000000000000000000000000000000000000000000000000000000000000000000000000000000000000000000000000000000000000000000000000000000000000000000000000000000000000000'')) (js ''6'') =
      js ''1000000000000000000000000000000000000000000000000000000000000000000000000000000000000000000000000000000000000000000000000000000000000000000000000000000000000000000000000000000000000000000000000000000000000000000000000000000000000000000000000000000000000000000000000000000000000000000000000000000000000000000000''"
    by (simp add: or_default_def js_def)
  show l: "parseInt (js ''1000000000000000000000000000000000000000000000000000000000000000000000000000000000000000000000000000000000000000000000000000000000000000000000000000000000000000000000000000000000000000000000000000000000000000000000000000000000000000000000000000000000000000000000000000000000000000000000000000000000000000000000'') = PosInf"
    by (simp only: parseInt_def ex_integer_of_huge option.case ex_round_huge)
  have z: "round_int 0 = Fin 0" by (rule round_int_exact) simp
  show s: "js_times (js_minus (Fin 1) (Fin 1)) PosInf = NaN" by (simp add: z)
  show "GET ex_env None (Some (js ''1000000000000000000000000000000000000000000000000000000000000000000000000000000000000000000000000000000000000000000000000000000000000000000000000000000000000000000000000000000000000000000000000000000000000000000000000000000000000000000000000000000000000000000000000000000000000000000000000000000000000000000000'')) ex_store = ListFailure"
    unfolding GET_def Let_def d or_default_examples parse_default_numbers l s
    by (simp add: ex_no_fault)
qed



text \<open>
  C2. Every post that List returns has the status \<^verbatim>\<open>published\<close>, and the posts are returned
  newest first: they are the projections of joined documents whose posts are stored,
  published, and in descending order of their publish date. (The projection itself
  carries the date as a \<^verbatim>\<open>%d-%m-%Y\<close> string; the order is that of the stored dates.)
\<close>

theorem list_only_published_newest_first:
  assumes "GET e pp lp st = Listing ps tp"
  shows "(\<forall>r\<in>set ps. l_status r = Some (EStr (js ''published''))) \<and>
    (\<exists>ds. ps = map (project_one e) ds \<and>
       sorted_wrt (\<lambda>a b. publish_date (source_post b) \<le> publish_date (source_post a)) ds \<and>
       (\<forall>d\<in>set ds. source_post d \<in> set (posts st) \<and>
          status (source_post d) = Some (EStr (js ''published''))))"
proof -
  from GET_Listing [OF assms] obtain skip limit
    where ps: "ps = aggregate e st skip limit" by blast
  define ds where "ds = take limit (drop skip (joined_stage st))"
  have m: "ps = map (project_one e) ds"
    by (simp add: ps ds_def aggregate_def take_map drop_map)
  have s: "sorted_wrt (\<lambda>a b. publish_date (source_post b) \<le> publish_date (source_post a)) ds"
    unfolding ds_def by (intro sorted_wrt_take sorted_wrt_drop sorted_joined_stage)
  have "set ds \<subseteq> set (joined_stage st)"
    unfolding ds_def by (meson set_take_subset set_drop_subset subset_trans)
  then have "source_post ` set ds \<subseteq> {p \<in> set (posts st). published p}"
    using source_joined_stage [of st] by blast
  then have p: "\<forall>d\<in>set ds. source_post d \<in> set (posts st) \<and>
      status (source_post d) = Some (EStr (js ''published''))"
    by (auto simp: published_def)
  then have "\<forall>r\<in>set ps. l_status r = Some (EStr (js ''published''))"
    by (auto simp: m project_source)
  with m s p show ?thesis by blast
qed

text \<open>
  C4. A published post whose category refers to no stored category is not dropped and
  raises no error: every document the pipeline makes from it is projected with
  \<^verbatim>\<open>category\<close> and \<^verbatim>\<open>categoryName\<close> null, and for every limit there is a page on which List
  returns it so. The same holds for the subcategory. (A limit is a number from 1 and below
  \<open>2 ^ 63\<close>, what the store accepts; the pipeline makes fewer than \<open>2 ^ 53\<close> documents, so
  that the number of every page and the documents before it are counted exactly.)
\<close>

theorem unresolved_reference_listed_as_null:
  assumes "p \<in> set (posts st)" "published p"
  shows "(\<forall>d\<in>set (joined_stage st). source_post d = p \<longrightarrow>
      ((\<forall>c\<in>set (categories st). category p \<noteq> Some (EStr (taxon_id c))) \<longrightarrow>
         l_category (project_one e d) = None \<and> l_categoryName (project_one e d) = None) \<and>
      ((\<forall>c\<in>set (subcategories st). subcategory p \<noteq> Some (EStr (taxon_id c))) \<longrightarrow>
         l_subcategory (project_one e d) = None \<and> l_subcategoryName (project_one e d) = None)) \<and>
    (fault_of e Conn = None \<and> fault_of e PostAggregate = None \<and>
     fault_of e PostCountDocuments = None \<and>
     parseInt (or_default lp (js ''6'')) = Fin limit \<and> 1 \<le> limit \<and> limit < 2 ^ 63 \<and>
     length (joined_stage st) < 2 ^ 53 \<longrightarrow>
       (\<exists>n ps tp. 1 \<le> n \<and> GET e (Some (decimal n)) lp st = Listing ps tp \<and>
          (\<exists>r\<in>set ps. l_id r = post_id p \<and> l_title r = title p \<and>
             ((\<forall>c\<in>set (categories st). category p \<noteq> Some (EStr (taxon_id c))) \<longrightarrow>
                l_category r = None \<and> l_categoryName r = None) \<and>
             ((\<forall>c\<in>set (subcategories st). subcategory p \<noteq> Some (EStr (taxon_id c))) \<longrightarrow>
                l_subcategory r = None \<and> l_subcategoryName r = None))))"
proof (intro conjI ballI impI)
  fix d assume d: "d \<in> set (joined_stage st)" and s: "source_post d = p"
  note u = unresolved_joined [OF d, of e, unfolded s]
  {
    assume "\<forall>c\<in>set (categories st). category p \<noteq> Some (EStr (taxon_id c))"
    with u show "l_category (project_one e d) = None" "l_categoryName (project_one e d) = None"
      by blast+
  }
  {
    assume "\<forall>c\<in>set (subcategories st). subcategory p \<noteq> Some (EStr (taxon_id c))"
    with u show "l_subcategory (project_one e d) = None" "l_subcategoryName (project_one e d) = None"
      by blast+
  }
next
  assume a: "fault_of e Conn = None \<and> fault_of e PostAggregate = None \<and>
     fault_of e PostCountDocuments = None \<and>
     parseInt (or_default lp (js ''6'')) = Fin limit \<and> 1 \<le> limit \<and> limit < 2 ^ 63 \<and>
     length (joined_stage st) < 2 ^ 53"
  from assms have "p \<in> source_post ` set (joined_stage st)"
    by (simp add: source_joined_stage)
  then obtain d where d: "d \<in> set (joined_stage st)" and s: "source_post d = p" by blast
  from a d obtain n ps tp where n: "1 \<le> n"
    and g: "GET e (Some (decimal n)) lp st = Listing ps tp" and r: "project_one e d \<in> set ps"
    using listed_on_some_page [of e lp limit d st] by blast
  note u = unresolved_joined [OF d, of e, unfolded s]
  have "l_id (project_one e d) = post_id p \<and> l_title (project_one e d) = title p"
    by (simp add: project_source s)
  with u r have "\<exists>r\<in>set ps. l_id r = post_id p \<and> l_title r = title p \<and>
             ((\<forall>c\<in>set (categories st). category p \<noteq> Some (EStr (taxon_id c))) \<longrightarrow>
                l_category r = None \<and> l_categoryName r = None) \<and>
             ((\<forall>c\<in>set (subcategories st). subcategory p \<noteq> Some (EStr (taxon_id c))) \<longrightarrow>
                l_subcategory r = None \<and> l_subcategoryName r = None)"
    by blast
  with n g show "\<exists>n ps tp. 1 \<le> n \<and> GET e (Some (decimal n)) lp st = Listing ps tp \<and>
          (\<exists>r\<in>set ps. l_id r = post_id p \<and> l_title r = title p \<and>
             ((\<forall>c\<in>set (categories st). category p \<noteq> Some (EStr (taxon_id c))) \<longrightarrow>
                l_category r = None \<and> l_categoryName r = None) \<and>
             ((\<forall>c\<in>set (subcategories st). subcategory p \<noteq> Some (EStr (taxon_id c))) \<longrightarrow>
                l_subcategory r = None \<and> l_subcategoryName r = None))"
    by blast
qed

lemma ex_distinct:
  "distinct (map taxon_id (categories ex_store))" "distinct (map taxon_id (subcategories ex_store))"
  by (simp_all add: ex_defs)

lemma ex_parse:
  "parseInt (or_default (Some (js ''2'')) (js ''1'')) = Fin 2"
  "parseInt (or_default (Some (js ''1'')) (js ''6'')) = Fin 1"
  "parseInt (or_default None (js ''1'')) = Fin 1"
  "parseInt (or_default None (js ''6'')) = Fin 6"
  by (simp_all only: or_default_examples parse_default_numbers)

lemma ex_sorted_published:
  "sort_stage (match_stage (posts ex_store)) = [ex_post_c, ex_post_a]"
  by (simp add: ex_defs sort_stage_def match_stage_def published_def js_def)







lemma ex_joined_length: "length (joined_stage ex_store) = 2"
proof -
  have "length (map source_post (joined_stage ex_store)) =
      length (sort_stage (match_stage (posts ex_store)))"
    by (simp only: sources_joined [OF ex_distinct])
  then show ?thesis by (simp add: ex_sorted_published)
qed


theorem list_only_published_newest_first_witness:
  "\<exists>ps tp. GET ex_env None None ex_store = Listing ps tp \<and>
     (\<forall>r\<in>set ps. l_status r = Some (EStr (js ''published''))) \<and>
     (\<exists>ds. ps = map (project_one ex_env) ds \<and>
        sorted_wrt (\<lambda>a b. publish_date (source_post b) \<le> publish_date (source_post a)) ds \<and>
        (\<forall>d\<in>set ds. source_post d \<in> set (posts ex_store) \<and>
           status (source_post d) = Some (EStr (js ''published''))))"
proof -
  have "GET ex_env None None ex_store =
      Listing (aggregate ex_env ex_store (nat ((1 - 1) * 6)) (nat 6))
        (total_pages (countDocuments ex_store) 6)"
    using ex_no_fault(1) ex_parse(3,4) by (intro GET_ok) simp_all
  from this list_only_published_newest_first [OF this] show ?thesis by blast
qed

lemma ex_post_c_facts:
  "ex_post_c \<in> set (posts ex_store)" "published ex_post_c"
  "\<forall>c\<in>set (categories ex_store). category ex_post_c \<noteq> Some (EStr (taxon_id c))"
  "\<forall>c\<in>set (subcategories ex_store). subcategory ex_post_c \<noteq> Some (EStr (taxon_id c))"
  "post_id ex_post_c = js ''c''"
  by (simp_all add: ex_defs published_def js_def)

theorem unresolved_reference_listed_as_null_witness:
  "\<exists>n ps tp. 1 \<le> n \<and>
     GET ex_env (Some (decimal n)) (Some (js ''1'')) ex_store = Listing ps tp \<and>
     (\<exists>r\<in>set ps. l_id r = js ''c'' \<and> l_category r = None \<and> l_categoryName r = None \<and>
        l_subcategory r = None \<and> l_subcategoryName r = None)"
proof -
  note a = unresolved_reference_listed_as_null [OF ex_post_c_facts(1,2),
      of ex_env "Some (js ''1'')" 1]
  from a ex_no_fault(1) ex_parse(2) ex_post_c_facts(3,4,5) ex_joined_length show ?thesis
    by (auto simp del: set_simps)
qed

end
